theory Spec2Isabelle
  imports Complex_Main "HOL-Library.Word" "HOL-Library.Multiset" "HOL-Library.Product_Lexorder"
begin

unbundle bit_operations_syntax

section \<open>Machine types\<close>

text \<open>
  \<^verbatim>\<open>size_t\<close> is the 64-bit unsigned type, \<^verbatim>\<open>uint16_t\<close> and \<^verbatim>\<open>uint8_t\<close> are
  16 and 8 bits wide, and \<^verbatim>\<open>int\<close> is the 32-bit signed type. The \<^verbatim>\<open>int\<close> values of the
  bit operations below are held in a 32-bit word (converted to \<^verbatim>\<open>size_t\<close> with sign
  extension); the \<^verbatim>\<open>int\<close> counter of the timer is an integer whose bounds are
  checked where it is doubled.
\<close>

type_synonym size_t = "64 word"
type_synonym uint16_t = "16 word"
type_synonym uint8_t = "8 word"
type_synonym cint = "32 word"

section \<open>Size triples and their compact form\<close>

text \<open>
  \<^verbatim>\<open>struct size_triple_t { size_t k, m, n; ... }\<close>. The constructor from a compact
  value is \<open>size_triple_of_compact\<close> below.
\<close>

record size_triple_t =
  k :: size_t
  m :: size_t
  n :: size_t

text \<open>
  \<^verbatim>\<open>size_triple_t(uint16_t compact)\<close>: the operand is promoted to \<^verbatim>\<open>int\<close>, masked,
  shifted right, the \<^verbatim>\<open>int\<close> constant 1 is shifted left by that amount and the result is
  converted to \<^verbatim>\<open>size_t\<close>.
\<close>

definition size_triple_of_compact :: "uint16_t \<Rightarrow> size_triple_t" where
  "size_triple_of_compact c =
     \<lparr> k = scast (push_bit (unat (drop_bit 8 ((ucast c :: cint) AND 0xf00))) (1 :: cint)),
       m = scast (push_bit (unat (drop_bit 4 ((ucast c :: cint) AND 0x0f0))) (1 :: cint)),
       n = scast (push_bit (unat (drop_bit 0 ((ucast c :: cint) AND 0x00f))) (1 :: cint)) \<rparr>"

text \<open>
  \<^verbatim>\<open>uint8_t log2_pot(size_t x) { size_t l = 0; while (x >>= 1) l++; return l; }\<close>
  The loop shifts first and tests the shifted value; the result is narrowed to 8 bits.
\<close>

function log2_pot_loop :: "size_t \<Rightarrow> size_t \<Rightarrow> size_t" where
  "log2_pot_loop x l =
     (let x' = drop_bit 1 x in if x' \<noteq> 0 then log2_pot_loop x' (l + 1) else l)"
  by pat_completeness auto
termination
proof (relation "measure (\<lambda>(x, l). unat x)")
  show "wf (measure (\<lambda>(x :: size_t, l :: size_t). unat x))" by simp
next
  fix x l x' :: size_t
  assume a: "x' = drop_bit 1 x" "x' \<noteq> 0"
  have "unat (drop_bit 1 x) = unat x div 2"
    by (simp add: drop_bit_eq_div unat_div)
  moreover from a have "unat (drop_bit 1 x) \<noteq> 0"
    by (simp add: unat_eq_0)
  ultimately have "unat (drop_bit 1 x) < unat x" by linarith
  with a show "((x', l + 1), (x, l)) \<in> measure (\<lambda>(x, l). unat x)" by simp
qed

declare log2_pot_loop.simps [simp del]

definition log2_pot :: "size_t \<Rightarrow> uint8_t" where
  "log2_pot x = ucast (log2_pot_loop x 0)"

text \<open>
  \<^verbatim>\<open>return (log2_pot(k) << 8) | (log2_pot(m) << 4) | log2_pot(n);\<close>
  The three \<^verbatim>\<open>uint8_t\<close> values are promoted to \<^verbatim>\<open>int\<close> before shifting; the \<^verbatim>\<open>int\<close>
  result is narrowed to \<^verbatim>\<open>uint16_t\<close>.
\<close>

definition compact_size_triple :: "size_t \<Rightarrow> size_t \<Rightarrow> size_t \<Rightarrow> uint16_t" where
  "compact_size_triple pk pm pn =
     ucast (push_bit 8 (ucast (log2_pot pk) :: cint)
            OR push_bit 4 (ucast (log2_pot pm) :: cint)
            OR (ucast (log2_pot pn) :: cint))"

definition compact_size_triple_t :: "size_triple_t \<Rightarrow> uint16_t" where
  "compact_size_triple_t t = compact_size_triple (k t) (m t) (n t)"

section \<open>Floating-point numbers\<close>

text \<open>
  A \<^verbatim>\<open>float\<close> or \<^verbatim>\<open>double\<close> value is read as the real number it denotes, and every
  operation on such values rounds its exact result to the format, to the nearest value
  with ties to the even significand (IEEE 754 binary32 and binary64, each operation
  evaluated in the format of its type).

  \<open>round_half_even\<close> rounds a real number to an integer. \<open>binade_from\<close> finds the
  exponent \<open>e\<close> with \<open>2\<^sup>e \<le> a < 2\<^sup>e\<^sup>+\<^sup>1\<close> among the exponents of the format, from the
  lowest one upwards; below the normal numbers it stays at the lowest exponent, which
  gives the subnormal numbers their spacing. \<open>fl_round p emin emax\<close> rounds to a
  significand of \<open>p\<close> bits. A rounded value above the largest finite number of the
  format stands for an infinity.
\<close>

definition round_half_even :: "real \<Rightarrow> int" where
  "round_half_even x =
     (let f = \<lfloor>x\<rfloor>; d = x - of_int f in
      if d < 1 / 2 then f else if d > 1 / 2 then f + 1 else if even f then f else f + 1)"

fun binade_from :: "nat \<Rightarrow> int \<Rightarrow> real \<Rightarrow> int" where
  "binade_from 0 e a = e"
| "binade_from (Suc fuel) e a = (if 2 powi (e + 1) \<le> a then binade_from fuel (e + 1) a else e)"

definition fl_round :: "nat \<Rightarrow> int \<Rightarrow> int \<Rightarrow> real \<Rightarrow> real" where
  "fl_round p emin emax x =
     (let e = binade_from (nat (emax - emin)) emin \<bar>x\<bar>;
          ulp = 2 powi (e - (int p - 1))
      in of_int (round_half_even (x / ulp)) * ulp)"

definition binary32 :: "real \<Rightarrow> real" where
  "binary32 x = fl_round 24 (- 126) 127 x"

definition binary64 :: "real \<Rightarrow> real" where
  "binary64 x = fl_round 53 (- 1022) 1023 x"

text \<open>\<^verbatim>\<open>FLT_MAX\<close>, and whether a rounded value is a finite \<^verbatim>\<open>float\<close>.\<close>

definition FLT_MAX :: real where
  "FLT_MAX = (2 ^ 24 - 1) * 2 ^ 104"

definition finite32 :: "real \<Rightarrow> bool" where
  "finite32 x \<longleftrightarrow> \<bar>x\<bar> \<le> FLT_MAX"

section \<open>Trials\<close>

text \<open>
  \<^verbatim>\<open>struct benchmark_t\<close>: the benchmark parameters and, after \<^verbatim>\<open>run()\<close>, the result
  in \<open>gflops\<close>. The fields \<open>gflops\<close> and \<open>min_accurate_time\<close> are \<^verbatim>\<open>float\<close>s.
\<close>

record benchmark_t =
  compact_product_size :: uint16_t
  compact_block_size :: uint16_t
  use_default_block_size :: bool
  gflops :: real
  min_working_set_size :: size_t
  min_accurate_time :: real

text \<open>\<^verbatim>\<open>const float g_min_accurate_time = 1e-2f;\<close>\<close>

definition g_min_accurate_time :: real where
  "g_min_accurate_time = binary32 (1 / 100)"


definition benchmark_t_3 :: "size_t \<Rightarrow> size_t \<Rightarrow> size_t \<Rightarrow> size_t \<Rightarrow> benchmark_t" where
  "benchmark_t_3 g_min_working_set_size pk pm pn =
     \<lparr> compact_product_size = compact_size_triple pk pm pn,
       compact_block_size = 0,
       use_default_block_size = True,
       gflops = 0,
       min_working_set_size = g_min_working_set_size,
       min_accurate_time = g_min_accurate_time \<rparr>"

text \<open>
  \<^verbatim>\<open>bool operator<(const benchmark_t& b1, const benchmark_t& b2)\<close>: increasing
  parameters, then decreasing performance.
\<close>

definition benchmark_less :: "benchmark_t \<Rightarrow> benchmark_t \<Rightarrow> bool" where
  "benchmark_less b1 b2 \<longleftrightarrow>
     compact_product_size b1 < compact_product_size b2 \<or>
       (compact_product_size b1 = compact_product_size b2 \<and>
         (compact_block_size b1 < compact_block_size b2 \<or>
           (compact_block_size b1 = compact_block_size b2 \<and> gflops b1 > gflops b2)))"

section \<open>The environment\<close>

text \<open>
  What the program reads from outside is given by oracles, and what it does to the
  outside is logged:
  \<^item> \<open>cpu_timer w r i\<close> is the CPU time, in seconds, that the \<open>r\<close>-th execution of
    \<^verbatim>\<open>benchmark_t::run\<close> in the process measures around a batch of \<open>i\<close> products
    (\<^verbatim>\<open>float(endtime - starttime)\<close>); within one execution every batch has another
    size, so this fixes each measured timing independently;
  \<^item> \<open>real_timer w j\<close> is the \<open>j\<close>-th value of \<^verbatim>\<open>timer.getRealTime()\<close>;
  \<^item> \<open>random_shuffle w\<close> is the rearrangement \<^verbatim>\<open>random_shuffle\<close> makes;
  \<^item> \<open>runs\<close> and \<open>real_reads\<close> count the executions and the readings so far,
    \<open>sleeps\<close> lists the arguments of the calls of \<^verbatim>\<open>sleep\<close>.
  Output to \<^verbatim>\<open>cerr\<close> and \<^verbatim>\<open>cout\<close>, the \<^verbatim>\<open>eigen_block_size\<close> globals handed to the
  product kernel, and failure of \<^verbatim>\<open>new\<close> are not part of the model.
\<close>

record world =
  cpu_timer :: "nat \<Rightarrow> int \<Rightarrow> real"
  real_timer :: "nat \<Rightarrow> real"
  random_shuffle :: "benchmark_t list \<Rightarrow> benchmark_t list"
  g_min_working_set_size :: size_t
  runs :: nat
  real_reads :: nat
  sleeps :: "nat list"

text \<open>
  How an execution can fail: signed overflow of an \<^verbatim>\<open>int\<close> (undefined behaviour),
  a \<^verbatim>\<open>float\<close> that is stored and is not finite (a division by zero or a result above
  \<^verbatim>\<open>FLT_MAX\<close>; the model does not follow infinities and NaN further), an index past the
  end of a vector (undefined behaviour), and \<^verbatim>\<open>exit(1)\<close>. A result is \<open>None\<close> when the execution does not end,
  \<open>Some (Inl (f, w))\<close> when it fails with \<open>f\<close> in the world \<open>w\<close>, and
  \<open>Some (Inr (x, w))\<close> when it returns \<open>x\<close>.
\<close>

datatype failure = Signed_Overflow | Not_Finite | Out_Of_Range | Exit_1

type_synonym 'a result = "(failure \<times> world + 'a \<times> world) option"

definition getRealTime :: "world \<Rightarrow> real \<times> world" where
  "getRealTime w = (real_timer w (real_reads w), w\<lparr>real_reads := real_reads w + 1\<rparr>)"

section \<open>The adaptive timer\<close>

text \<open>\<^verbatim>\<open>sizeof(Scalar)\<close> for \<^verbatim>\<open>MatrixXf\<close>, whose scalar is \<^verbatim>\<open>float\<close>.\<close>

definition sizeof_Scalar :: size_t where
  "sizeof_Scalar = 4"

text \<open>The locals of \<^verbatim>\<open>benchmark_t::run\<close> that size the matrix pool, in \<^verbatim>\<open>size_t\<close>.\<close>

definition combined_three_matrices_sizes :: "benchmark_t \<Rightarrow> size_t" where
  "combined_three_matrices_sizes b =
     (let productsizes = size_triple_of_compact (compact_product_size b) in
      sizeof_Scalar *
        (k productsizes * m productsizes +
         k productsizes * n productsizes +
         m productsizes * n productsizes))"

definition unlikely_large_cache_size :: size_t where
  "unlikely_large_cache_size = scast (push_bit 20 (64 :: cint))"

definition working_set_size :: "benchmark_t \<Rightarrow> size_t" where
  "working_set_size b =
     (if min_working_set_size b \<noteq> 0 then min_working_set_size b else unlikely_large_cache_size)"

definition matrix_pool_size :: "benchmark_t \<Rightarrow> size_t" where
  "matrix_pool_size b = 1 + working_set_size b div combined_three_matrices_sizes b"

text \<open>
  The main benchmark loop, \<^verbatim>\<open>while (true) { ... iters_at_a_time *= 2; }\<close>. The
  counter is an \<^verbatim>\<open>int\<close>: doubling it past \<open>2\<^sup>3\<^sup>1 - 1\<close> is undefined behaviour and
  ends the model with \<open>Signed_Overflow\<close>. On acceptance the loop yields the
  counter and \<^verbatim>\<open>time_per_iter = timing / iters_at_a_time\<close>, a division of \<^verbatim>\<open>float\<close>s
  after the conversion of the counter. The oracle \<open>elapsed\<close> gives the \<^verbatim>\<open>float\<close>
  \<^verbatim>\<open>timing\<close> of a batch.
\<close>

definition INT_MAX :: int where
  "INT_MAX = 2147483647"

definition INT_MIN :: int where
  "INT_MIN = - 2147483648"

partial_function (option) timing_loop ::
  "(int \<Rightarrow> real) \<Rightarrow> real \<Rightarrow> int \<Rightarrow> (failure + int \<times> real) option" where
  "timing_loop elapsed min_time iters_at_a_time =
     (let timing = elapsed iters_at_a_time in
      if timing \<ge> min_time
      then Some (Inr (iters_at_a_time, binary32 (timing / binary32 (real_of_int iters_at_a_time))))
      else if 2 * iters_at_a_time > INT_MAX \<or> 2 * iters_at_a_time < INT_MIN
      then Some (Inl Signed_Overflow)
      else timing_loop elapsed min_time (2 * iters_at_a_time))"

text \<open>
  The right-hand side of
  \<^verbatim>\<open>gflops = 2e-9 * productsizes.k * productsizes.m * productsizes.n / time_per_iter\<close>:
  the literal is a \<^verbatim>\<open>double\<close>, the sizes and \<^verbatim>\<open>time_per_iter\<close> are converted to
  \<^verbatim>\<open>double\<close> without loss, the products and the quotient are \<^verbatim>\<open>double\<close> operations, and
  the assignment converts to \<^verbatim>\<open>float\<close>. The sizes are at most \<open>2\<^sup>1\<^sup>5\<close> and a nonzero
  \<^verbatim>\<open>float\<close> is at least \<open>2\<^sup>-\<^sup>1\<^sup>4\<^sup>9\<close> in absolute value, so that no \<^verbatim>\<open>double\<close> here is
  infinite.
\<close>

definition gflops_value :: "size_triple_t \<Rightarrow> real \<Rightarrow> real" where
  "gflops_value productsizes time_per_iter =
     binary32 (binary64 (binary64 (binary64 (binary64 (binary64 (2 / 10 ^ 9)
                 * real (unat (k productsizes)))
                 * real (unat (m productsizes)))
                 * real (unat (n productsizes)))
                 / time_per_iter))"

text \<open>
  \<^verbatim>\<open>void benchmark_t::run()\<close>: the execution takes the next timing oracle of the
  world, and stores \<^verbatim>\<open>gflops\<close>.
\<close>

definition benchmark_t_run :: "benchmark_t \<Rightarrow> world \<Rightarrow> benchmark_t result" where
  "benchmark_t_run b w =
     (let productsizes = size_triple_of_compact (compact_product_size b);
          w' = w\<lparr>runs := runs w + 1\<rparr> in
      case timing_loop (cpu_timer w (runs w)) (min_accurate_time b) 1 of
        None \<Rightarrow> None
      | Some (Inl f) \<Rightarrow> Some (Inl (f, w'))
      | Some (Inr (iters_at_a_time, time_per_iter)) \<Rightarrow>
          if time_per_iter = 0 \<or> \<not> finite32 (gflops_value productsizes time_per_iter)
          then Some (Inl (Not_Finite, w'))
          else Some (Inr (b\<lparr>gflops := gflops_value productsizes time_per_iter\<rparr>, w')))"

section \<open>The clock probe\<close>

text \<open>
  \<^verbatim>\<open>float measure_clock_speed()\<close>. The loop \<^verbatim>\<open>for (int i = 0; i < 8; i++)\<close> builds
  the same benchmark each time, runs it and appends its result. What follows the loop
  is \<open>clock_speed_estimate\<close>: the results are sorted, the four in the middle are added
  from left to right and the sum is multiplied by \<^verbatim>\<open>123.456f\<close>, each operation a
  \<^verbatim>\<open>float\<close> operation; the value is \<open>None\<close> when one of them is not finite.
\<close>

function measure_loop :: "nat \<Rightarrow> real list \<Rightarrow> world \<Rightarrow> (real list) result" where
  "measure_loop i all_gflops w =
     (if i < 8 then
        (let b = (benchmark_t_3 (g_min_working_set_size w) 128 128 128)
                   \<lparr>min_working_set_size := 1, min_accurate_time := binary32 (1 / 10)\<rparr> in
         case benchmark_t_run b w of
           None \<Rightarrow> None
         | Some (Inl fw) \<Rightarrow> Some (Inl fw)
         | Some (Inr (b', w')) \<Rightarrow> measure_loop (i + 1) (all_gflops @ [gflops b']) w')
      else Some (Inr (all_gflops, w)))"
  by pat_completeness auto
termination
  by (relation "measure (\<lambda>(i, all_gflops, w). 8 - i)") auto

declare measure_loop.simps [simp del]

definition clock_speed_estimate :: "real list \<Rightarrow> real option" where
  "clock_speed_estimate all_gflops =
     (let sorted_gflops = sort all_gflops;
          sum2 = binary32 (sorted_gflops ! 2 + sorted_gflops ! 3);
          sum3 = binary32 (sum2 + sorted_gflops ! 4);
          stable_estimate = binary32 (sum3 + sorted_gflops ! 5);
          result = binary32 (stable_estimate * binary32 (123456 / 1000))
      in if finite32 sum2 \<and> finite32 sum3 \<and> finite32 stable_estimate \<and> finite32 result
         then Some result else None)"

definition measure_clock_speed :: "world \<Rightarrow> real result" where
  "measure_clock_speed w =
     (case measure_loop 0 [] w of
        None \<Rightarrow> None
      | Some (Inl fw) \<Rightarrow> Some (Inl fw)
      | Some (Inr (all_gflops, w')) \<Rightarrow>
          (case clock_speed_estimate all_gflops of
             None \<Rightarrow> Some (Inl (Not_Finite, w'))
           | Some result \<Rightarrow> Some (Inr (result, w'))))"

section \<open>The scheduler\<close>

text \<open>
  The variables that \<^verbatim>\<open>try_run_some_benchmarks\<close> receives by reference, apart from
  the vector of benchmarks.
\<close>

record checkpoint =
  first_benchmark_to_run :: nat
  max_clock_speed :: real

text \<open>
  \<^verbatim>\<open>const float tolerance_higher_clock_speed = 1.01f\<close> and
  \<^verbatim>\<open>const float tolerance_lower_clock_speed = 0.98f\<close>. The two bounds that the probe is
  compared with are products of \<^verbatim>\<open>float\<close>s; a product above \<^verbatim>\<open>FLT_MAX\<close> compares with a
  finite probe as the infinity does.
\<close>

definition tolerance_higher_clock_speed :: real where
  "tolerance_higher_clock_speed = binary32 (101 / 100)"

definition tolerance_lower_clock_speed :: real where
  "tolerance_lower_clock_speed = binary32 (98 / 100)"

text \<open>
  The inner loop
  \<^verbatim>\<open>while (current_clock_speed < tolerance_lower_clock_speed * max_clock_speed)\<close>
  with its locals \<^verbatim>\<open>seconds_to_sleep_if_lower_clock_speed\<close> and
  \<^verbatim>\<open>rerun_last_tests\<close>; it yields the last probe and \<^verbatim>\<open>rerun_last_tests\<close>.
\<close>

partial_function (option) sleep_loop ::
  "real \<Rightarrow> real \<Rightarrow> nat \<Rightarrow> bool \<Rightarrow> world \<Rightarrow> (real \<times> bool) result" where
  "sleep_loop max_speed current_clock_speed seconds_to_sleep rerun_last_tests w =
     (if current_clock_speed < binary32 (tolerance_lower_clock_speed * max_speed) then
        (if seconds_to_sleep > 300 then Some (Inl (Exit_1, w))
         else
           (case measure_clock_speed (w\<lparr>sleeps := sleeps w @ [seconds_to_sleep]\<rparr>) of
              None \<Rightarrow> None
            | Some (Inl fw) \<Rightarrow> Some (Inl fw)
            | Some (Inr (current', w')) \<Rightarrow>
                sleep_loop max_speed current' ((seconds_to_sleep * 2) mod 2 ^ 32) True w'))
      else Some (Inr ((current_clock_speed, rerun_last_tests), w)))"

text \<open>
  The block guarded by
  \<^verbatim>\<open>if (benchmark_index == benchmarks.size() || time_now > time_last_clock_speed_measurement + 60.0f)\<close>.
  Its result says whether the function returns there (\<open>True\<close>) or goes on, and gives
  the updated \<^verbatim>\<open>time_last_clock_speed_measurement\<close> and by-reference variables. The
  times are \<^verbatim>\<open>double\<close>s.
\<close>

definition check_clock_speed ::
  "nat \<Rightarrow> nat \<Rightarrow> real \<Rightarrow> real \<Rightarrow> checkpoint \<Rightarrow> world \<Rightarrow> (bool \<times> real \<times> checkpoint) result" where
  "check_clock_speed benchmarks_size benchmark_index time_now time_last_clock_speed_measurement c w =
     (if benchmark_index = benchmarks_size \<or>
         time_now > binary64 (time_last_clock_speed_measurement + 60) then
        (case measure_clock_speed w of
           None \<Rightarrow> None
         | Some (Inl fw) \<Rightarrow> Some (Inl fw)
         | Some (Inr (current_clock_speed, w1)) \<Rightarrow>
             if current_clock_speed > binary32 (tolerance_higher_clock_speed * max_clock_speed c)
             then Some (Inr ((True, time_now,
                     c\<lparr>max_clock_speed := current_clock_speed, first_benchmark_to_run := 0\<rparr>), w1))
             else
               (case (if current_clock_speed
                          < binary32 (tolerance_lower_clock_speed * max_clock_speed c)
                      then sleep_loop (max_clock_speed c) current_clock_speed 1 False w1
                      else Some (Inr ((current_clock_speed, False), w1))) of
                  None \<Rightarrow> None
                | Some (Inl fw) \<Rightarrow> Some (Inl fw)
                | Some (Inr ((current', rerun_last_tests), w2)) \<Rightarrow>
                    if rerun_last_tests then Some (Inr ((True, time_now, c), w2))
                    else Some (Inr ((False, time_now,
                           c\<lparr>first_benchmark_to_run := benchmark_index\<rparr>), w2))))
      else Some (Inr ((False, time_last_clock_speed_measurement, c), w)))"

text \<open>
  The outer \<^verbatim>\<open>while (true)\<close> of \<^verbatim>\<open>try_run_some_benchmarks\<close>. An index past the end
  of the vector would be undefined behaviour in \<^verbatim>\<open>benchmarks[benchmark_index]\<close>.
\<close>

function try_run_loop ::
  "real \<Rightarrow> nat \<Rightarrow> benchmark_t list \<Rightarrow> checkpoint \<Rightarrow> world \<Rightarrow> (benchmark_t list \<times> checkpoint) result" where
  "try_run_loop time_last_clock_speed_measurement benchmark_index benchmarks c w =
     (let (time_now, w0) = getRealTime w in
      case check_clock_speed (length benchmarks) benchmark_index time_now
             time_last_clock_speed_measurement c w0 of
        None \<Rightarrow> None
      | Some (Inl fw) \<Rightarrow> Some (Inl fw)
      | Some (Inr ((returned, time_last', c'), w1)) \<Rightarrow>
          if returned then Some (Inr ((benchmarks, c'), w1))
          else if benchmark_index = length benchmarks
          then Some (Inr ((benchmarks, c'\<lparr>first_benchmark_to_run := length benchmarks\<rparr>), w1))
          else if benchmark_index > length benchmarks then Some (Inl (Out_Of_Range, w1))
          else
            (case benchmark_t_run (benchmarks ! benchmark_index) w1 of
               None \<Rightarrow> None
             | Some (Inl fw) \<Rightarrow> Some (Inl fw)
             | Some (Inr (b', w2)) \<Rightarrow>
                 try_run_loop time_last' (benchmark_index + 1)
                   (benchmarks[benchmark_index := b']) c' w2))"
  by pat_completeness auto
termination
  by (relation "measure (\<lambda>(t, i, bs, c, w). length bs - i)") auto

declare try_run_loop.simps [simp del]

definition try_run_some_benchmarks ::
  "benchmark_t list \<Rightarrow> checkpoint \<Rightarrow> world \<Rightarrow> (benchmark_t list \<times> checkpoint) result" where
  "try_run_some_benchmarks benchmarks c w =
     (if first_benchmark_to_run c = length benchmarks then Some (Inr ((benchmarks, c), w))
      else try_run_loop 0 (first_benchmark_to_run c) benchmarks c w)"

text \<open>
  \<^verbatim>\<open>run_benchmarks\<close>, in its four parts: the first four probes, of which the highest
  is kept; the loop \<^verbatim>\<open>while (first_benchmark_to_run < benchmarks.size())\<close>; the sort
  with \<^verbatim>\<open>operator<\<close>; and the scan that keeps the first benchmark of each pair of
  parameters.
\<close>

function initial_clock_speed :: "nat \<Rightarrow> real \<Rightarrow> world \<Rightarrow> real result" where
  "initial_clock_speed i max_speed w =
     (if i < 4 then
        (case measure_clock_speed w of
           None \<Rightarrow> None
         | Some (Inl fw) \<Rightarrow> Some (Inl fw)
         | Some (Inr (s, w')) \<Rightarrow> initial_clock_speed (i + 1) (max max_speed s) w')
      else Some (Inr (max_speed, w)))"
  by pat_completeness auto
termination
  by (relation "measure (\<lambda>(i, s, w). 4 - i)") auto

declare initial_clock_speed.simps [simp del]

partial_function (option) run_all ::
  "benchmark_t list \<Rightarrow> checkpoint \<Rightarrow> world \<Rightarrow> (benchmark_t list \<times> checkpoint) result" where
  "run_all benchmarks c w =
     (if first_benchmark_to_run c < length benchmarks then
        (case try_run_some_benchmarks benchmarks c w of
           None \<Rightarrow> None
         | Some (Inl fw) \<Rightarrow> Some (Inl fw)
         | Some (Inr ((benchmarks', c'), w')) \<Rightarrow> run_all benchmarks' c' w')
      else Some (Inr ((benchmarks, c), w)))"

text \<open>
  \<^verbatim>\<open>sort(benchmarks.begin(), benchmarks.end())\<close> orders by \<^verbatim>\<open>operator<\<close>; it is
  modelled by insertion, and the facts below that concern it are proved for every
  rearrangement in which no benchmark is followed by a smaller one.
\<close>

fun insert_benchmark :: "benchmark_t \<Rightarrow> benchmark_t list \<Rightarrow> benchmark_t list" where
  "insert_benchmark b [] = [b]"
| "insert_benchmark b (x # xs) =
     (if benchmark_less b x then b # x # xs else x # insert_benchmark b xs)"

fun sort_benchmarks :: "benchmark_t list \<Rightarrow> benchmark_t list" where
  "sort_benchmarks [] = []"
| "sort_benchmarks (b # bs) = insert_benchmark b (sort_benchmarks bs)"

text \<open>
  \<^verbatim>\<open>for (auto it = benchmarks.begin(); it != benchmarks.end(); ++it)\<close> with the
  accumulator \<^verbatim>\<open>best_benchmarks\<close>.
\<close>

fun collect_best :: "benchmark_t list \<Rightarrow> benchmark_t list \<Rightarrow> benchmark_t list" where
  "collect_best [] best_benchmarks = best_benchmarks"
| "collect_best (it # rest) best_benchmarks =
     (if best_benchmarks = [] \<or>
         compact_product_size (last best_benchmarks) \<noteq> compact_product_size it \<or>
         compact_block_size (last best_benchmarks) \<noteq> compact_block_size it
      then collect_best rest (best_benchmarks @ [it])
      else collect_best rest best_benchmarks)"

definition reduce_benchmarks :: "benchmark_t list \<Rightarrow> benchmark_t list" where
  "reduce_benchmarks benchmarks = collect_best (sort_benchmarks benchmarks) []"

definition run_benchmarks :: "benchmark_t list \<Rightarrow> world \<Rightarrow> (benchmark_t list) result" where
  "run_benchmarks benchmarks w =
     (let shuffled = random_shuffle w benchmarks in
      case initial_clock_speed 0 0 w of
        None \<Rightarrow> None
      | Some (Inl fw) \<Rightarrow> Some (Inl fw)
      | Some (Inr (max_speed, w1)) \<Rightarrow>
          (let (time_start, w2) = getRealTime w1 in
           case run_all shuffled \<lparr>first_benchmark_to_run = 0, max_clock_speed = max_speed\<rparr> w2 of
             None \<Rightarrow> None
           | Some (Inl fw) \<Rightarrow> Some (Inl fw)
           | Some (Inr ((benchmarks', c), w3)) \<Rightarrow> Some (Inr (reduce_benchmarks benchmarks', w3))))"

section \<open>Auxiliary functions for the statements\<close>

text \<open>
  The number of times a natural number can be halved before it becomes 0 or 1: the
  exponent of the highest power of two that is not above it. It is what the loop of
  \<^verbatim>\<open>log2_pot\<close> counts, stated on \<open>nat\<close>.
\<close>

fun halvings :: "nat \<Rightarrow> nat" where
  "halvings v = (if v div 2 \<noteq> 0 then Suc (halvings (v div 2)) else 0)"

declare halvings.simps [simp del]

text \<open>
  The pair of parameters of a benchmark, ordered lexicographically, and the triple that
  \<^verbatim>\<open>operator<\<close> compares lexicographically: the parameters, then the negated
  performance.
\<close>

definition config :: "benchmark_t \<Rightarrow> uint16_t \<times> uint16_t" where
  "config b = (compact_product_size b, compact_block_size b)"

definition rank :: "benchmark_t \<Rightarrow> (uint16_t \<times> uint16_t) \<times> real" where
  "rank b = (config b, - gflops b)"

text \<open>
  The scan of \<open>collect_best\<close> as seen from the last benchmark kept: a benchmark is
  dropped when its parameters are those of the last one kept.
\<close>

fun keep_new :: "uint16_t \<times> uint16_t \<Rightarrow> benchmark_t list \<Rightarrow> benchmark_t list" where
  "keep_new prev [] = []"
| "keep_new prev (x # xs) =
     (if config x = prev then keep_new prev xs else x # keep_new (config x) xs)"

text \<open>A benchmark with the given parameters and performance, for the examples.\<close>

definition trial :: "uint16_t \<Rightarrow> uint16_t \<Rightarrow> real \<Rightarrow> benchmark_t" where
  "trial p b g =
     \<lparr> compact_product_size = p, compact_block_size = b, use_default_block_size = False,
       gflops = g, min_working_set_size = 0, min_accurate_time = g_min_accurate_time \<rparr>"

text \<open>
  The timing oracle of a deterministic kernel of which every invocation costs the
  time \<open>C\<close>: a batch of \<open>i\<close> products takes \<open>i * C\<close>, which the program reads as a
  \<^verbatim>\<open>float\<close>.
\<close>

definition deterministic_kernel :: "real \<Rightarrow> int \<Rightarrow> real" where
  "deterministic_kernel C i = binary32 (real_of_int i * C)"

text \<open>
  The benchmark that \<^verbatim>\<open>measure_clock_speed\<close> builds in each round, and the
  performance that an execution of \<^verbatim>\<open>run\<close> stores when it returns.
\<close>

definition probe_benchmark :: "world \<Rightarrow> benchmark_t" where
  "probe_benchmark w =
     (benchmark_t_3 (g_min_working_set_size w) 128 128 128)
       \<lparr>min_working_set_size := 1, min_accurate_time := binary32 (1 / 10)\<rparr>"

definition run_gflops :: "benchmark_t \<Rightarrow> world \<Rightarrow> real option" where
  "run_gflops b w =
     (case benchmark_t_run b w of Some (Inr (b', w')) \<Rightarrow> Some (gflops b') | _ \<Rightarrow> None)"

text \<open>
  A world at the start of a process, for the examples: the two timing oracles are
  given, \<^verbatim>\<open>random_shuffle\<close> leaves the order as it is, and no working-set size was
  asked for.
\<close>

definition world_of :: "(nat \<Rightarrow> int \<Rightarrow> real) \<Rightarrow> (nat \<Rightarrow> real) \<Rightarrow> world" where
  "world_of cpu wall =
     \<lparr> cpu_timer = cpu, real_timer = wall, random_shuffle = (\<lambda>bs. bs),
       g_min_working_set_size = 0, runs = 0, real_reads = 0, sleeps = [] \<rparr>"

text \<open>A world in which every batch of every execution takes the time \<open>t\<close>.\<close>

definition steady_world :: "real \<Rightarrow> world" where
  "steady_world t = world_of (\<lambda>r i. t) (\<lambda>j. 0)"

text \<open>
  The value that \<^verbatim>\<open>measure_clock_speed\<close> returns when the executions of
  \<^verbatim>\<open>run\<close> before it number \<open>r\<close>, if it returns.
\<close>

definition probe_estimate :: "world \<Rightarrow> nat \<Rightarrow> real option" where
  "probe_estimate w r =
     (case measure_clock_speed (w\<lparr>runs := r\<rparr>) of Some (Inr (v, w')) \<Rightarrow> Some v | _ \<Rightarrow> None)"

text \<open>
  What a stretch of the process between the worlds \<open>w\<close> and \<open>w'\<close> has done to the list
  of benchmarks when it has executed \<^verbatim>\<open>run\<close> once on each of the benchmarks \<open>i, \<dots>, e - 1\<close>,
  in this order, and on no other: benchmark \<open>j\<close> was run by the execution number
  \<open>\<rho> j\<close> of the process, which lies between the two worlds, and holds the result of that
  execution, all its other fields being as before; the execution numbers grow with
  \<open>j\<close>; the benchmarks outside \<open>i, \<dots>, e - 1\<close> are as before.
\<close>

definition runs_trials ::
  "benchmark_t list \<Rightarrow> world \<Rightarrow> benchmark_t list \<Rightarrow> world \<Rightarrow> nat \<Rightarrow> nat \<Rightarrow> (nat \<Rightarrow> nat) \<Rightarrow> bool" where
  "runs_trials bs w bs' w' i e \<rho> \<longleftrightarrow>
     length bs' = length bs \<and> i \<le> e \<and> e \<le> length bs \<and>
     (\<forall>j<length bs.
        if i \<le> j \<and> j < e
        then runs w \<le> \<rho> j \<and> \<rho> j < runs w'
           \<and> run_gflops (bs ! j) (w\<lparr>runs := \<rho> j\<rparr>) = Some (gflops (bs' ! j))
           \<and> bs' ! j = (bs ! j)\<lparr>gflops := gflops (bs' ! j)\<rparr>
           \<and> (j + 1 < e \<longrightarrow> \<rho> j < \<rho> (j + 1))
        else bs' ! j = bs ! j)"

text \<open>A result with its world changed by \<open>f\<close>.\<close>

definition in_world :: "(world \<Rightarrow> world) \<Rightarrow> 'a result \<Rightarrow> 'a result" where
  "in_world f r = map_option (map_sum (apsnd f) (apsnd f)) r"

text \<open>A benchmark without its result: what \<^verbatim>\<open>run\<close> must leave as it is.\<close>

definition parameters :: "benchmark_t \<Rightarrow> benchmark_t" where
  "parameters b = b\<lparr>gflops := 0\<rparr>"

text \<open>
  The performance that an execution of \<^verbatim>\<open>run\<close> stores for three matrices of \<open>s\<close> by \<open>s\<close>
  when its first batch, of one product, takes the time \<open>t\<close> and is accepted; and the
  estimate of a probe of which each of the eight executions does so.
\<close>

definition steady_gflops :: "size_t \<Rightarrow> real \<Rightarrow> real" where
  "steady_gflops s t = gflops_value \<lparr>k = s, m = s, n = s\<rparr> (binary32 (t / binary32 1))"

definition steady_estimate :: "real \<Rightarrow> real" where
  "steady_estimate t = the (clock_speed_estimate (replicate 8 (steady_gflops 128 t)))"



text \<open>
  A world in which the clock speed is halved during the executions 50 to 57 of
  \<^verbatim>\<open>run\<close> and doubled during the executions 58 to 65 and the execution 74; else every
  batch takes a second. The wall clock advances by 100 seconds from one reading to
  the next, so that the clock speed is checked in every round.
\<close>

definition redo_world :: world where
  "redo_world =
     world_of (\<lambda>r i. if 50 \<le> r \<and> r < 58 then 2
                     else if (58 \<le> r \<and> r < 66) \<or> r = 74 then 1 / 2 else 1)
       (\<lambda>j. 100 * real j)"

section \<open>Rounding\<close>

subsection \<open>Rounding to an integer\<close>

lemma round_half_even_of_int: "round_half_even (of_int j) = j"
  by (simp add: round_half_even_def)

lemma round_half_even_cases:
  "round_half_even x = \<lfloor>x\<rfloor> \<or> round_half_even x = \<lfloor>x\<rfloor> + 1"
  by (simp add: round_half_even_def Let_def)

lemma round_half_even_mono:
  assumes "x \<le> y"
  shows "round_half_even x \<le> round_half_even y"
proof (cases "\<lfloor>x\<rfloor> < \<lfloor>y\<rfloor>")
  case True
  have "round_half_even x \<le> \<lfloor>x\<rfloor> + 1"
    using round_half_even_cases [of x] by auto
  moreover have "\<lfloor>y\<rfloor> \<le> round_half_even y"
    using round_half_even_cases [of y] by auto
  ultimately show ?thesis
    using True by linarith
next
  case False
  have "\<lfloor>x\<rfloor> \<le> \<lfloor>y\<rfloor>"
    using assms by (rule floor_mono)
  with False have eq: "\<lfloor>x\<rfloor> = \<lfloor>y\<rfloor>"
    by simp
  have "x - of_int \<lfloor>y\<rfloor> \<le> y - of_int \<lfloor>y\<rfloor>"
    using assms by simp
  then show ?thesis
    by (auto simp add: round_half_even_def Let_def eq)
qed

lemma round_half_even_minus: "round_half_even (- x) = - round_half_even x"
proof (cases "x = of_int \<lfloor>x\<rfloor>")
  case True
  then obtain j :: int where "x = of_int j"
    by blast
  then have "- x = of_int (- j)"
    by simp
  then show ?thesis
    using \<open>x = of_int j\<close> round_half_even_of_int by metis
next
  case False
  have lt: "of_int \<lfloor>x\<rfloor> < x"
    using False of_int_floor_le [of x] by linarith
  have fl: "\<lfloor>- x\<rfloor> = - \<lfloor>x\<rfloor> - 1"
    by (rule floor_unique) (use lt in \<open>simp_all\<close>, linarith+)
  show ?thesis
    unfolding round_half_even_def Let_def fl
    using lt by (auto simp add: field_simps)
qed

subsection \<open>The exponent\<close>

lemma binade_from_ge: "e \<le> binade_from fuel e a"
proof (induction fuel arbitrary: e)
  case 0
  show ?case by simp
next
  case (Suc fuel)
  show ?case
    using Suc [of "e + 1"] by auto
qed

lemma binade_from_le: "binade_from fuel e a \<le> e + int fuel"
proof (induction fuel arbitrary: e)
  case 0
  show ?case by simp
next
  case (Suc fuel)
  show ?case
    using Suc [of "e + 1"] by auto
qed

lemma binade_from_lower:
  "e < binade_from fuel e a \<Longrightarrow> 2 powi (binade_from fuel e a) \<le> a"
proof (induction fuel arbitrary: e)
  case 0
  then show ?case by simp
next
  case (Suc fuel)
  show ?case
  proof (cases "2 powi (e + 1) \<le> a")
    case True
    then have eq: "binade_from (Suc fuel) e a = binade_from fuel (e + 1) a"
      by simp
    show ?thesis
    proof (cases "e + 1 < binade_from fuel (e + 1) a")
      case True
      then show ?thesis
        using Suc.IH [of "e + 1"] eq by simp
    next
      case False
      then have "binade_from fuel (e + 1) a = e + 1"
        using binade_from_ge [of "e + 1" fuel a] by simp
      then show ?thesis
        using \<open>2 powi (e + 1) \<le> a\<close> eq by simp
    qed
  next
    case False
    then show ?thesis
      using Suc.prems by simp
  qed
qed

lemma binade_from_upper:
  "binade_from fuel e a < e + int fuel \<Longrightarrow> a < 2 powi (binade_from fuel e a + 1)"
proof (induction fuel arbitrary: e)
  case 0
  then show ?case by simp
next
  case (Suc fuel)
  show ?case
  proof (cases "2 powi (e + 1) \<le> a")
    case True
    then show ?thesis
      using Suc.IH [of "e + 1"] Suc.prems by simp
  next
    case False
    then show ?thesis
      by simp
  qed
qed

lemma binade_from_eq:
  assumes "e0 \<le> e" "e \<le> e0 + int fuel"
    and "e0 < e \<Longrightarrow> 2 powi e \<le> a"
    and "e < e0 + int fuel \<Longrightarrow> a < 2 powi (e + 1)"
  shows "binade_from fuel e0 a = e"
proof (rule ccontr)
  assume ne: "binade_from fuel e0 a \<noteq> e"
  let ?b = "binade_from fuel e0 a"
  have one: "(1::real) < 2" by simp
  show False
  proof (cases "?b < e")
    case True
    then have "?b < e0 + int fuel"
      using assms(2) by simp
    then have "a < 2 powi (?b + 1)"
      by (rule binade_from_upper)
    also have "2 powi (?b + 1) \<le> (2::real) powi e"
      using True by (intro power_int_increasing) auto
    finally have "a < 2 powi e" .
    moreover have "e0 < e"
      using True binade_from_ge [of e0 fuel a] by simp
    ultimately show False
      using assms(3) by simp
  next
    case False
    with ne have gt: "e < ?b"
      by simp
    then have "e0 < ?b"
      using assms(1) by simp
    then have "2 powi ?b \<le> a"
      by (rule binade_from_lower)
    moreover have "(2::real) powi (e + 1) \<le> 2 powi ?b"
      using gt by (intro power_int_increasing) auto
    moreover have "e < e0 + int fuel"
      using gt binade_from_le [of fuel e0 a] by simp
    ultimately show False
      using assms(4) by simp
  qed
qed

subsection \<open>Rounding to a format\<close>

lemma round_half_even_nonneg: "0 \<le> x \<Longrightarrow> 0 \<le> round_half_even x"
  using round_half_even_mono [of 0 x] round_half_even_of_int [of 0] by simp

lemma fl_round_eval:
  assumes "emin \<le> e" "e \<le> emax"
    and "emin < e \<Longrightarrow> 2 powi e \<le> \<bar>x\<bar>"
    and "e < emax \<Longrightarrow> \<bar>x\<bar> < 2 powi (e + 1)"
  shows "fl_round p emin emax x =
           of_int (round_half_even (x / 2 powi (e - (int p - 1)))) * 2 powi (e - (int p - 1))"
proof -
  have "binade_from (nat (emax - emin)) emin \<bar>x\<bar> = e"
    using assms by (intro binade_from_eq) auto
  then show ?thesis
    by (simp add: fl_round_def Let_def)
qed

lemma fl_round_minus: "fl_round p emin emax (- x) = - fl_round p emin emax x"
  by (simp add: fl_round_def Let_def round_half_even_minus)

lemma fl_round_0: "fl_round p emin emax 0 = 0"
  by (simp add: fl_round_def Let_def round_half_even_def)

lemma fl_round_nonneg: "0 \<le> x \<Longrightarrow> 0 \<le> fl_round p emin emax x"
  by (simp add: fl_round_def Let_def round_half_even_nonneg)

lemma two_powi_diff: "(2::real) powi a / 2 powi b = 2 powi (a - b)"
  by (simp add: power_int_diff)

lemma two_powi_mult: "(2::real) powi a * 2 powi b = 2 powi (a + b)"
  by (simp add: power_int_add)

lemma two_powi_less_imp: "(2::real) powi a < 2 powi b \<Longrightarrow> a < b"
proof (rule ccontr)
  assume "2 powi a < (2::real) powi b" and "\<not> a < b"
  then have "(2::real) powi b \<le> 2 powi a"
    by (intro power_int_increasing) auto
  with \<open>2 powi a < (2::real) powi b\<close> show False
    by simp
qed

lemma fl_round_mono_nonneg:
  assumes p: "0 < p" and le: "emin \<le> emax" and x: "0 \<le> x" and xy: "x \<le> y"
  shows "fl_round p emin emax x \<le> fl_round p emin emax y"
proof -
  let ?E = "\<lambda>a. binade_from (nat (emax - emin)) emin a"
  let ?u = "\<lambda>e. (2::real) powi (e - (int p - 1))"
  have top: "emin + int (nat (emax - emin)) = emax"
    using le by simp
  have ax: "\<bar>x\<bar> = x" and ay: "\<bar>y\<bar> = y"
    using x xy by simp_all
  have rx: "fl_round p emin emax x = of_int (round_half_even (x / ?u (?E x))) * ?u (?E x)"
    by (simp add: fl_round_def Let_def ax)
  have ry: "fl_round p emin emax y = of_int (round_half_even (y / ?u (?E y))) * ?u (?E y)"
    by (simp add: fl_round_def Let_def ay)
  have upos: "\<And>e. 0 < ?u e"
    by simp
  have Ex_le: "?E x \<le> emax" and Ey_le: "?E y \<le> emax"
    using binade_from_le [of "nat (emax - emin)" emin] top by simp_all
  have Ex_ge: "emin \<le> ?E x" and Ey_ge: "emin \<le> ?E y"
    using binade_from_ge [of emin] by simp_all
  have mono: "?E x \<le> ?E y"
  proof (rule ccontr)
    assume "\<not> ?E x \<le> ?E y"
    then have lt: "?E y < ?E x"
      by simp
    then have "?E y < emin + int (nat (emax - emin))"
      using Ex_le top by simp
    then have "y < 2 powi (?E y + 1)"
      by (rule binade_from_upper)
    also have "(2::real) powi (?E y + 1) \<le> 2 powi (?E x)"
      using lt by (intro power_int_increasing) auto
    also have "2 powi (?E x) \<le> x"
      using lt Ey_ge by (intro binade_from_lower) simp
    finally show False
      using xy by simp
  qed
  show ?thesis
  proof (cases "?E x = ?E y")
    case True
    have "x / ?u (?E y) \<le> y / ?u (?E y)"
      using xy upos by (simp add: divide_right_mono)
    then have "round_half_even (x / ?u (?E y)) \<le> round_half_even (y / ?u (?E y))"
      by (rule round_half_even_mono)
    then have "(of_int (round_half_even (x / ?u (?E y))) :: real) \<le> of_int (round_half_even (y / ?u (?E y)))"
      by simp
    then show ?thesis
      unfolding rx ry True using upos by (simp add: mult_right_mono)
  next
    case False
    with mono have lt: "?E x < ?E y"
      by simp
    have "?E x < emin + int (nat (emax - emin))"
      using lt Ey_le top by simp
    then have xu: "x < 2 powi (?E x + 1)"
      by (rule binade_from_upper)
    have yl: "2 powi (?E y) \<le> y"
      using lt Ex_ge by (intro binade_from_lower) simp
    have "x / ?u (?E x) \<le> 2 powi (?E x + 1) / ?u (?E x)"
      using xu upos by (simp add: divide_right_mono)
    also have "2 powi (?E x + 1) / ?u (?E x) = (2::real) powi (int p)"
      by (simp add: two_powi_diff)
    also have "\<dots> = of_int (2 ^ p)"
      by simp
    finally have "round_half_even (x / ?u (?E x)) \<le> round_half_even (of_int (2 ^ p))"
      by (rule round_half_even_mono)
    then have "(of_int (round_half_even (x / ?u (?E x))) :: real) \<le> of_int (2 ^ p)"
      unfolding round_half_even_of_int by (simp only: of_int_le_iff)
    then have "fl_round p emin emax x \<le> of_int (2 ^ p) * ?u (?E x)"
      unfolding rx using upos by (simp add: mult_right_mono)
    also have "of_int (2 ^ p) * ?u (?E x) = (2::real) powi (int p) * ?u (?E x)"
      by simp
    also have "\<dots> = 2 powi (int p + (?E x - (int p - 1)))"
      by (rule two_powi_mult)
    also have "int p + (?E x - (int p - 1)) = ?E x + 1"
      by simp
    finally have a: "fl_round p emin emax x \<le> 2 powi (?E x + 1)" .
    have pp: "int p - 1 = int (p - 1)"
      using p by simp
    have "(2::real) powi (?E y) / ?u (?E y) = 2 powi (int p - 1)"
      by (simp add: two_powi_diff)
    also have "\<dots> = of_int (2 ^ (p - 1))"
      unfolding pp by simp
    finally have "of_int (2 ^ (p - 1)) = (2::real) powi (?E y) / ?u (?E y)"
      by simp
    moreover have "(2::real) powi (?E y) / ?u (?E y) \<le> y / ?u (?E y)"
      using yl upos by (simp add: divide_right_mono)
    ultimately have "of_int (2 ^ (p - 1)) \<le> y / ?u (?E y)"
      by simp
    then have "round_half_even (of_int (2 ^ (p - 1))) \<le> round_half_even (y / ?u (?E y))"
      by (rule round_half_even_mono)
    then have "(of_int (2 ^ (p - 1)) :: real) \<le> of_int (round_half_even (y / ?u (?E y)))"
      unfolding round_half_even_of_int by (simp only: of_int_le_iff)
    then have "of_int (2 ^ (p - 1)) * ?u (?E y) \<le> fl_round p emin emax y"
      unfolding ry using upos by (simp add: mult_right_mono)
    moreover have "of_int (2 ^ (p - 1)) * ?u (?E y) = (2::real) powi (int p - 1) * ?u (?E y)"
      unfolding pp by simp
    moreover have "(2::real) powi (int p - 1) * ?u (?E y) = 2 powi (int p - 1 + (?E y - (int p - 1)))"
      by (rule two_powi_mult)
    moreover have "int p - 1 + (?E y - (int p - 1)) = ?E y"
      by simp
    ultimately have b: "2 powi (?E y) \<le> fl_round p emin emax y"
      by simp
    have "(2::real) powi (?E x + 1) \<le> 2 powi (?E y)"
      using lt by (intro power_int_increasing) auto
    with a b show ?thesis
      by linarith
  qed
qed

lemma fl_round_mono:
  assumes p: "0 < p" and le: "emin \<le> emax" and xy: "x \<le> y"
  shows "fl_round p emin emax x \<le> fl_round p emin emax y"
proof (cases "0 \<le> x")
  case True
  show ?thesis
    by (rule fl_round_mono_nonneg [OF p le True xy])
next
  case False
  show ?thesis
  proof (cases "0 \<le> y")
    case True
    have "fl_round p emin emax x = - fl_round p emin emax (- x)"
      by (simp add: fl_round_minus)
    moreover have "0 \<le> fl_round p emin emax (- x)"
      using False by (intro fl_round_nonneg) simp
    moreover have "0 \<le> fl_round p emin emax y"
      using True by (rule fl_round_nonneg)
    ultimately show ?thesis
      by linarith
  next
    case False
    then have "fl_round p emin emax (- y) \<le> fl_round p emin emax (- x)"
      using xy by (intro fl_round_mono_nonneg [OF p le]) simp_all
    then show ?thesis
      by (simp add: fl_round_minus)
  qed
qed

lemma fl_round_representable:
  assumes le: "emin \<le> emax" and m: "\<bar>j\<bar> < 2 ^ p" and e: "emin - (int p - 1) \<le> i"
  shows "fl_round p emin emax (of_int j * 2 powi i) = of_int j * 2 powi i"
proof -
  define x :: real where "x = of_int j * 2 powi i"
  define b where "b = binade_from (nat (emax - emin)) emin \<bar>x\<bar>"
  define u where "u = b - (int p - 1)"
  have "u \<le> i"
  proof (cases "emin < b")
    case True
    then have "2 powi b \<le> \<bar>x\<bar>"
      unfolding b_def by (rule binade_from_lower)
    also have "\<bar>x\<bar> = of_int \<bar>j\<bar> * 2 powi i"
      by (simp add: x_def abs_mult)
    also have "\<dots> < of_int (2 ^ p) * 2 powi i"
      using m by (intro mult_strict_right_mono) (simp_all only: of_int_less_iff zero_less_power_int zero_less_numeral)
    also have "\<dots> = 2 powi (int p + i)"
      by (simp add: power_int_add)
    finally have "(2::real) powi b < 2 powi (int p + i)" .
    then have "b < int p + i"
      by (rule two_powi_less_imp)
    then show ?thesis
      by (simp add: u_def)
  next
    case False
    then have "b = emin"
      using binade_from_ge [of emin "nat (emax - emin)" "\<bar>x\<bar>"] by (simp add: b_def)
    then show ?thesis
      using e by (simp add: u_def)
  qed
  then have "i = u + int (nat (i - u))"
    by simp
  then obtain d :: nat where d: "i = u + int d" ..
  have "(2::real) powi i = 2 powi u * 2 powi (int d)"
    unfolding d by (rule two_powi_mult [symmetric])
  then have pw: "(2::real) powi i = 2 powi u * 2 ^ d"
    by simp
  have xe: "x = of_int (j * 2 ^ d) * 2 powi u"
    by (simp add: x_def pw)
  have "x / 2 powi u = of_int (j * 2 ^ d)"
    by (subst xe) simp
  then have "round_half_even (x / 2 powi u) = j * 2 ^ d"
    by (simp only: round_half_even_of_int)
  then have "fl_round p emin emax x = of_int (j * 2 ^ d) * 2 powi u"
    by (simp add: fl_round_def Let_def b_def [symmetric] u_def [symmetric])
  then have "fl_round p emin emax x = x"
    by (simp only: xe [symmetric])
  then show ?thesis
    by (simp only: x_def)
qed

subsection \<open>The two formats\<close>

lemma binary32_eval:
  assumes "- 126 \<le> e" "e \<le> 127"
    and "- 126 < e \<Longrightarrow> 2 powi e \<le> \<bar>x\<bar>"
    and "e < 127 \<Longrightarrow> \<bar>x\<bar> < 2 powi (e + 1)"
    and "round_half_even (x / 2 powi (e - 23)) = j"
  shows "binary32 x = of_int j * 2 powi (e - 23)"
  unfolding binary32_def using fl_round_eval [of "- 126" e 127 x 24] assms by simp

lemma binary64_eval:
  assumes "- 1022 \<le> e" "e \<le> 1023"
    and "- 1022 < e \<Longrightarrow> 2 powi e \<le> \<bar>x\<bar>"
    and "e < 1023 \<Longrightarrow> \<bar>x\<bar> < 2 powi (e + 1)"
    and "round_half_even (x / 2 powi (e - 52)) = j"
  shows "binary64 x = of_int j * 2 powi (e - 52)"
  unfolding binary64_def using fl_round_eval [of "- 1022" e 1023 x 53] assms by simp

lemma binary32_mono: "x \<le> y \<Longrightarrow> binary32 x \<le> binary32 y"
  unfolding binary32_def by (rule fl_round_mono) simp_all

lemma binary64_mono: "x \<le> y \<Longrightarrow> binary64 x \<le> binary64 y"
  unfolding binary64_def by (rule fl_round_mono) simp_all

lemma binary32_representable:
  "\<bar>j\<bar> < 2 ^ 24 \<Longrightarrow> - 149 \<le> i \<Longrightarrow> binary32 (of_int j * 2 powi i) = of_int j * 2 powi i"
  unfolding binary32_def by (rule fl_round_representable) simp_all

lemma binary64_representable:
  "\<bar>j\<bar> < 2 ^ 53 \<Longrightarrow> - 1074 \<le> i \<Longrightarrow> binary64 (of_int j * 2 powi i) = of_int j * 2 powi i"
  unfolding binary64_def by (rule fl_round_representable) simp_all

lemma binary32_of_int: "\<bar>j\<bar> < 2 ^ 24 \<Longrightarrow> binary32 (of_int j) = of_int j"
  using binary32_representable [of j 0] by simp

lemma binary64_of_int: "\<bar>j\<bar> < 2 ^ 53 \<Longrightarrow> binary64 (of_int j) = of_int j"
  using binary64_representable [of j 0] by simp

lemma binary32_power2: "binary32 (2 ^ e) = 2 ^ e"
  using binary32_representable [of 1 "int e"] by simp

lemma binary32_numerals [simp]:
  "binary32 0 = 0" "binary32 1 = 1" "binary32 2 = 2" "binary32 (1 / 2) = 1 / 2"
  "binary32 (3 / 4) = 3 / 4"
  using binary32_of_int [of 0] binary32_of_int [of 1] binary32_of_int [of 2]
    binary32_representable [of 1 "- 1"] binary32_representable [of 3 "- 2"]
  by (simp_all add: power_int_minus field_simps)

lemma binary64_numerals [simp]:
  "binary64 60 = 60" "binary64 160 = 160"
  using binary64_of_int [of 60] binary64_of_int [of 160] by simp_all

text \<open>The constants of the program.\<close>

lemma literal_2e_9: "binary64 (2 / 10 ^ 9) = 4835703278458517 / 2 ^ 81"
  by (subst binary64_eval [where e = "- 29" and j = 4835703278458517])
     (simp_all add: round_half_even_def)

lemma g_min_accurate_time_value: "g_min_accurate_time = 5368709 / 2 ^ 29"
  unfolding g_min_accurate_time_def
  by (subst binary32_eval [where e = "- 7" and j = 10737418])
     (simp_all add: round_half_even_def)

lemma literal_0_1f: "binary32 (1 / 10) = 13421773 / 2 ^ 27"
  by (subst binary32_eval [where e = "- 4" and j = 13421773])
     (simp_all add: round_half_even_def)

lemma literal_123_456f: "binary32 (123456 / 1000) = 16181625 / 2 ^ 17"
  by (subst binary32_eval [where e = 6 and j = 16181625])
     (simp_all add: round_half_even_def)

lemma FLT_MAX_pos: "0 < FLT_MAX"
  by (simp add: FLT_MAX_def)

lemma finite32_bounded: "\<bar>x\<bar> \<le> 2 ^ 127 \<Longrightarrow> finite32 x"
  by (simp add: finite32_def FLT_MAX_def)

section \<open>The compact form of size triples\<close>

subsection \<open>What \<open>log2_pot\<close> computes\<close>

lemma halvings_bounds: "v \<noteq> 0 \<Longrightarrow> 2 ^ halvings v \<le> v \<and> v < 2 ^ Suc (halvings v)"
proof (induction v rule: halvings.induct)
  case (1 v)
  show ?case
  proof (cases "v div 2 \<noteq> 0")
    case True
    with 1 have ih: "2 ^ halvings (v div 2) \<le> v div 2" "v div 2 < 2 ^ Suc (halvings (v div 2))"
      by auto
    have e: "halvings v = Suc (halvings (v div 2))"
      using True by (subst halvings.simps) simp
    from ih show ?thesis unfolding e by (simp; linarith)
  next
    case False
    then have e: "halvings v = 0" by (subst halvings.simps) simp
    from False 1(2) have "v = 1" by (simp add: div_eq_0_iff) 
    then show ?thesis unfolding e by simp
  qed
qed

lemma halvings_unique:
  assumes "2 ^ e \<le> v" "v < 2 ^ Suc e"
  shows "halvings v = e"
proof -
  from assms have v0: "v \<noteq> 0" by (metis not_less power_eq_0_iff zero_neq_numeral le_zero_eq)
  note b = halvings_bounds [OF v0]
  have "\<not> halvings v < e"
  proof
    assume "halvings v < e"
    then have "Suc (halvings v) \<le> e" by simp
    then have "(2::nat) ^ Suc (halvings v) \<le> 2 ^ e" by (rule power_increasing) simp
    with b assms show False by linarith
  qed
  moreover have "\<not> e < halvings v"
  proof
    assume "e < halvings v"
    then have "Suc e \<le> halvings v" by simp
    then have "(2::nat) ^ Suc e \<le> 2 ^ halvings v" by (rule power_increasing) simp
    with b assms show False by linarith
  qed
  ultimately show ?thesis by linarith
qed

lemma halvings_power [simp]: "halvings (2 ^ e) = e"
  by (rule halvings_unique) simp_all

lemma halvings_zero [simp]: "halvings 0 = 0"
  by (subst halvings.simps) simp

lemma halvings_less_64: "v < 2 ^ 64 \<Longrightarrow> halvings v < 64"
proof (cases "v = 0")
  case True then show ?thesis by simp
next
  case False
  assume "v < 2 ^ 64"
  with halvings_bounds [OF False] have "(2::nat) ^ halvings v < 2 ^ 64" by linarith
  then show ?thesis by (rule power_less_imp_less_exp [rotated]) simp
qed

lemma log2_pot_loop_halvings: "log2_pot_loop x l = l + of_nat (halvings (unat x))"
proof (induction x l rule: log2_pot_loop.induct)
  case (1 x l)
  have d: "unat (drop_bit 1 x) = unat x div 2"
    by (simp add: drop_bit_eq_div unat_div)
  show ?case
  proof (cases "drop_bit 1 x \<noteq> 0")
    case True
    then have nz: "unat x div 2 \<noteq> 0" by (metis d unat_eq_0)
    have "log2_pot_loop x l = log2_pot_loop (drop_bit 1 x) (l + 1)"
      using True by (subst log2_pot_loop.simps) (simp add: Let_def)
    also have "\<dots> = (l + 1) + of_nat (halvings (unat (drop_bit 1 x)))"
      using 1 True by simp
    also have "\<dots> = l + of_nat (halvings (unat x))"
    proof -
      have "halvings (unat x) = Suc (halvings (unat x div 2))"
        using nz by (subst halvings.simps) simp
      then show ?thesis unfolding d by simp
    qed
    finally show ?thesis .
  next
    case False
    then have z: "unat x div 2 = 0" by (metis d unat_eq_0)
    have "log2_pot_loop x l = l"
      using False by (subst log2_pot_loop.simps) (simp add: Let_def)
    moreover have "halvings (unat x) = 0"
      using z by (subst halvings.simps) simp
    ultimately show ?thesis by simp
  qed
qed

lemma unat_log2_pot: "unat (log2_pot x) = halvings (unat x)"
proof -
  have lt: "halvings (unat x) < 64"
    by (rule halvings_less_64) (use unsigned_less [of x, where 'a = nat] in simp)
  have "unat (log2_pot x) = take_bit 8 (unat (of_nat (halvings (unat x)) :: size_t))"
    by (simp add: log2_pot_def log2_pot_loop_halvings unsigned_ucast_eq)
  also have "\<dots> = halvings (unat x)"
    using lt by (simp add: unat_of_nat take_bit_eq_mod)
  finally show ?thesis .
qed

subsection \<open>Bit fields as arithmetic\<close>

lemma or_push_add: "c < 2 ^ j \<Longrightarrow> push_bit j b OR c = push_bit j b + (c::nat)"
proof -
  assume c: "c < 2 ^ j"
  then have t: "take_bit j c = c" by (rule take_bit_nat_eq_self)
  have "push_bit j b AND take_bit j c = 0"
    by (simp add: bit_eq_iff bit_simps)
  with t have "push_bit j b AND c = 0" by simp
  then show ?thesis by (rule disjunctive_add_eq_or [symmetric])
qed

lemma fields_nat:
  assumes "a < 16" "b < 16" "c < 16"
  shows "push_bit 8 a OR push_bit 4 b OR c = 256 * a + 16 * b + (c::nat)"
proof -
  have "push_bit 4 b + c < 2 ^ 8" using assms by (simp add: push_bit_eq_mult)
  then have "push_bit 8 a OR (push_bit 4 b + c) = push_bit 8 a + (push_bit 4 b + c)"
    by (rule or_push_add)
  moreover have "push_bit 4 b OR c = push_bit 4 b + c"
    by (rule or_push_add) (use assms in simp)
  ultimately show ?thesis by (simp add: push_bit_eq_mult or.assoc)
qed

lemma nibble_nat: "drop_bit j ((v::nat) AND push_bit j 15) = (v div 2 ^ j) mod 16"
proof -
  have "drop_bit j (v AND push_bit j 15) = drop_bit j v AND 15"
    by (simp add: bit_eq_iff bit_simps)
  also have "\<dots> = take_bit 4 (drop_bit j v)"
    by (simp add: take_bit_eq_mask mask_eq_exp_minus_1)
  finally show ?thesis by (simp add: take_bit_eq_mod drop_bit_eq_div)
qed

lemma less_16_cases:
  "(e::nat) < 16 \<Longrightarrow> e = 0 \<or> e = 1 \<or> e = 2 \<or> e = 3 \<or> e = 4 \<or> e = 5 \<or> e = 6 \<or> e = 7 \<or>
     e = 8 \<or> e = 9 \<or> e = 10 \<or> e = 11 \<or> e = 12 \<or> e = 13 \<or> e = 14 \<or> e = 15"
  by presburger

lemma pow2_cint: "e < 16 \<Longrightarrow> unat (scast (push_bit e (1 :: cint)) :: size_t) = 2 ^ e"
  by (drule less_16_cases) (elim disjE; simp)

lemma unat_push_15: "j < 16 \<Longrightarrow> unat (push_bit j (15 :: cint)) = push_bit j 15"
  by (drule less_16_cases) (elim disjE; simp)

lemma unat_pow2_size_t: "e < 16 \<Longrightarrow> unat (2 ^ e :: size_t) = 2 ^ e"
  by (drule less_16_cases) (elim disjE; simp)

lemma unat_compact_size_triple:
  assumes "halvings (unat pk) < 16" "halvings (unat pm) < 16" "halvings (unat pn) < 16"
  shows "unat (compact_size_triple pk pm pn)
         = 256 * halvings (unat pk) + 16 * halvings (unat pm) + halvings (unat pn)"
proof -
  let ?A = "halvings (unat pk)" and ?B = "halvings (unat pm)" and ?C = "halvings (unat pn)"
  have u: "unat (ucast (log2_pot x) :: cint) = halvings (unat x)" if "halvings (unat x) < 16" for x
    using that by (simp add: unsigned_ucast_eq unat_log2_pot take_bit_eq_mod)
  have a: "unat (push_bit 8 (ucast (log2_pot pk) :: cint)) = push_bit 8 ?A"
    using assms(1) by (subst unsigned_push_bit_eq) (simp add: u take_bit_eq_mod push_bit_eq_mult)
  have b: "unat (push_bit 4 (ucast (log2_pot pm) :: cint)) = push_bit 4 ?B"
    using assms(2) by (subst unsigned_push_bit_eq) (simp add: u take_bit_eq_mod push_bit_eq_mult)
  have c: "unat (ucast (log2_pot pn) :: cint) = ?C"
    using assms(3) by (rule u)
  let ?X = "push_bit 8 (ucast (log2_pot pk) :: cint)"
  let ?Y = "push_bit 4 (ucast (log2_pot pm) :: cint)"
  let ?Z = "ucast (log2_pot pn) :: cint"
  have 1: "unat (ucast (?X OR ?Y OR ?Z) :: uint16_t) = take_bit 16 (unat (?X OR ?Y OR ?Z))"
    by (simp only: unsigned_ucast_eq) simp
  have 2: "unat (?X OR ?Y OR ?Z) = unat ?X OR unat ?Y OR unat ?Z"
    by (simp only: unsigned_or_eq)
  have "unat (compact_size_triple pk pm pn) = take_bit 16 (push_bit 8 ?A OR push_bit 4 ?B OR ?C)"
    by (simp only: compact_size_triple_def 1 2 a b c)
  also have "\<dots> = take_bit 16 (256 * ?A + 16 * ?B + ?C)"
    using assms by (simp only: fields_nat)
  also have "\<dots> = 256 * ?A + 16 * ?B + ?C"
    using assms by (simp add: take_bit_eq_mod)
  finally show ?thesis .
qed

lemma unat_nibble_cint:
  assumes "j < 16"
  shows "unat (drop_bit j ((ucast (c :: uint16_t) :: cint) AND push_bit j 15)) = (unat c div 2 ^ j) mod 16"
proof -
  have uc: "unat (ucast c :: cint) = unat c"
    using unsigned_less [of c, where 'a = nat]
    by (simp add: unsigned_ucast_eq take_bit_eq_mod)
  have lt: "take_bit 32 (unat c AND push_bit j 15) = unat c AND push_bit j 15"
    by (rule bit_eqI) (auto simp: bit_simps bit_unsigned_iff dest: bit_imp_le_length)
  have "unat (drop_bit j ((ucast c :: cint) AND push_bit j 15))
        = drop_bit j (take_bit 32 (unat c AND push_bit j 15))"
    using assms by (simp only: unsigned_drop_bit_eq unsigned_and_eq uc unat_push_15 len_num1 len_bit0 mult_numeral_left_semiring_numeral mult_1_right numeral_times_numeral mult.right_neutral) simp
  also have "\<dots> = drop_bit j (unat c AND push_bit j 15)"
    by (simp only: lt)
  finally show ?thesis by (simp only: nibble_nat)
qed

lemma unat_size_triple_of_compact:
  "unat (k (size_triple_of_compact c)) = 2 ^ ((unat c div 256) mod 16)"
  "unat (m (size_triple_of_compact c)) = 2 ^ ((unat c div 16) mod 16)"
  "unat (n (size_triple_of_compact c)) = 2 ^ (unat c mod 16)"
proof -
  have f8: "unat (drop_bit 8 ((ucast c :: cint) AND 0xf00)) = (unat c div 256) mod 16"
    using unat_nibble_cint [of 8 c] by simp
  have f4: "unat (drop_bit 4 ((ucast c :: cint) AND 0x0f0)) = (unat c div 16) mod 16"
    using unat_nibble_cint [of 4 c] by simp
  have f0: "unat (drop_bit 0 ((ucast c :: cint) AND 0x00f)) = unat c mod 16"
    using unat_nibble_cint [of 0 c] by simp
  show "unat (k (size_triple_of_compact c)) = 2 ^ ((unat c div 256) mod 16)"
    unfolding size_triple_of_compact_def size_triple_t.simps f8 by (rule pow2_cint) simp
  show "unat (m (size_triple_of_compact c)) = 2 ^ ((unat c div 16) mod 16)"
    unfolding size_triple_of_compact_def size_triple_t.simps f4 by (rule pow2_cint) simp
  show "unat (n (size_triple_of_compact c)) = 2 ^ (unat c mod 16)"
    unfolding size_triple_of_compact_def size_triple_t.simps f0 by (rule pow2_cint) simp
qed

lemma halvings_lt_16: "v < 2 ^ 16 \<Longrightarrow> halvings v < 16"
proof (cases "v = 0")
  case True then show ?thesis by simp
next
  case False
  assume "v < 2 ^ 16"
  with halvings_bounds [OF False] have "(2::nat) ^ halvings v < 2 ^ 16" by linarith
  then show ?thesis by (rule power_less_imp_less_exp [rotated]) simp
qed

lemma size_triple_eqI:
  "unat (k t) = unat (k u) \<Longrightarrow> unat (m t) = unat (m u) \<Longrightarrow> unat (n t) = unat (n u) \<Longrightarrow> t = (u :: size_triple_t)"
  by (cases t, cases u) (simp add: word_unat_eq_iff)

lemma key_fields_nat:
  assumes "a < 16" "b < 16" "c < 16"
  shows "(256 * a + 16 * b + c) div 256 mod 16 = (a::nat)"
    and "(256 * a + 16 * b + c) div 16 mod 16 = b"
    and "(256 * a + 16 * b + c) mod 16 = c"
proof -
  have "(256 * a + 16 * b + c) div 256 = a" using assms by simp
  then show "(256 * a + 16 * b + c) div 256 mod 16 = a" using assms by simp
  have "(256 * a + 16 * b + c) div 16 = 16 * a + b" using assms by simp
  then show "(256 * a + 16 * b + c) div 16 mod 16 = b" using assms by simp
  have "256 * a + 16 * b + c = c + (16 * a + b) * 16" by simp
  then have "(256 * a + 16 * b + c) mod 16 = c mod 16" by (simp only: mod_mult_self1)
  then show "(256 * a + 16 * b + c) mod 16 = c" using assms(3) by simp
qed

lemma key_nat_mono:
  assumes "b1 \<le> 15" "c1 \<le> 15"
    and "a1 < a2 \<or> (a1 = a2 \<and> (b1 < b2 \<or> (b1 = b2 \<and> c1 < (c2::nat))))"
  shows "256 * a1 + 16 * b1 + c1 < 256 * a2 + 16 * b2 + c2"
proof -
  consider "a1 < a2" | "a1 = a2" "b1 < b2" | "a1 = a2" "b1 = b2" "c1 < c2"
    using assms(3) by blast
  then show ?thesis
  proof cases
    case 1
    then have "256 * a1 + 256 \<le> 256 * a2" by simp
    with assms(1,2) show ?thesis by simp
  next
    case 2
    then have "16 * b1 + 16 \<le> 16 * b2" by simp
    with 2 assms(2) show ?thesis by simp
  next
    case 3
    then show ?thesis by simp
  qed
qed

lemma key_nat_less:
  assumes "a1 \<le> 15" "b1 \<le> 15" "c1 \<le> 15" "a2 \<le> 15" "b2 \<le> 15" "c2 \<le> 15"
  shows "(256 * a1 + 16 * b1 + c1 < 256 * a2 + 16 * b2 + c2)
           = (a1 < a2 \<or> (a1 = a2 \<and> (b1 < b2 \<or> (b1 = b2 \<and> c1 < (c2::nat)))))"
    (is "(?K1 < ?K2) = ?L")
proof
  assume ?L
  with assms(2,3) show "?K1 < ?K2" by (rule key_nat_mono)
next
  assume lt: "?K1 < ?K2"
  show ?L
  proof (rule ccontr)
    assume "\<not> ?L"
    then have "(a1 = a2 \<and> b1 = b2 \<and> c1 = c2)
               \<or> (a2 < a1 \<or> (a2 = a1 \<and> (b2 < b1 \<or> (b2 = b1 \<and> c2 < c1))))"
      by (metis linorder_neqE_nat)
    then show False
    proof
      assume "a1 = a2 \<and> b1 = b2 \<and> c1 = c2"
      with lt show False by simp
    next
      assume "a2 < a1 \<or> (a2 = a1 \<and> (b2 < b1 \<or> (b2 = b1 \<and> c2 < c1)))"
      with assms(5,6) have "?K2 < ?K1" by (rule key_nat_mono)
      with lt show False by simp
    qed
  qed
qed

lemma key_nat_eq:
  assumes "a1 \<le> 15" "b1 \<le> 15" "c1 \<le> 15" "a2 \<le> 15" "b2 \<le> 15" "c2 \<le> 15"
  shows "(256 * a1 + 16 * b1 + c1 = 256 * a2 + 16 * b2 + c2)
           = (a1 = a2 \<and> b1 = b2 \<and> c1 = (c2::nat))"
    (is "(?K1 = ?K2) = ?R")
proof
  assume ?R then show "?K1 = ?K2" by simp
next
  assume e: "?K1 = ?K2"
  have l1: "a1 < 16" "b1 < 16" "c1 < 16" and l2: "a2 < 16" "b2 < 16" "c2 < 16"
    using assms by simp_all
  have "a1 = ?K1 div 256 mod 16" by (simp only: key_fields_nat [OF l1])
  also have "\<dots> = a2" unfolding e by (simp only: key_fields_nat [OF l2])
  finally have a: "a1 = a2" .
  have "b1 = ?K1 div 16 mod 16" by (simp only: key_fields_nat [OF l1])
  also have "\<dots> = b2" unfolding e by (simp only: key_fields_nat [OF l2])
  finally have b: "b1 = b2" .
  have "c1 = ?K1 mod 16" by (simp only: key_fields_nat [OF l1])
  also have "\<dots> = c2" unfolding e by (simp only: key_fields_nat [OF l2])
  finally have c: "c1 = c2" .
  from a b c show ?R by simp
qed

lemma decode_encode_general:
  assumes "unat pk < 2 ^ 16" "unat pm < 2 ^ 16" "unat pn < 2 ^ 16"
  shows "unat (k (size_triple_of_compact (compact_size_triple pk pm pn))) = 2 ^ halvings (unat pk)"
    and "unat (m (size_triple_of_compact (compact_size_triple pk pm pn))) = 2 ^ halvings (unat pm)"
    and "unat (n (size_triple_of_compact (compact_size_triple pk pm pn))) = 2 ^ halvings (unat pn)"
proof -
  note h = assms [THEN halvings_lt_16]
  note u = unat_compact_size_triple [OF h]
  from h show "unat (k (size_triple_of_compact (compact_size_triple pk pm pn))) = 2 ^ halvings (unat pk)"
    by (simp only: unat_size_triple_of_compact u key_fields_nat)
  from h show "unat (m (size_triple_of_compact (compact_size_triple pk pm pn))) = 2 ^ halvings (unat pm)"
    by (simp only: unat_size_triple_of_compact u key_fields_nat)
  from h show "unat (n (size_triple_of_compact (compact_size_triple pk pm pn))) = 2 ^ halvings (unat pn)"
    by (simp only: unat_size_triple_of_compact u key_fields_nat)
qed

lemma unat_pow2_le15: "e \<le> 15 \<Longrightarrow> unat (2 ^ e :: size_t) = 2 ^ e"
  by (rule unat_pow2_size_t) simp

lemma pow2_lt_65536: "e \<le> 15 \<Longrightarrow> (2::nat) ^ e < 2 ^ 16"
  by (rule power_strict_increasing) simp_all

lemma unat_pow2_lt: "e \<le> 15 \<Longrightarrow> unat (2 ^ e :: size_t) < 2 ^ 16"
  by (simp only: unat_pow2_le15 pow2_lt_65536)

lemma unat_key_pow2:
  assumes "a \<le> 15" "b \<le> 15" "c \<le> 15"
  shows "unat (compact_size_triple (2 ^ a) (2 ^ b) (2 ^ c)) = 256 * a + 16 * b + c"
  using assms by (subst unat_compact_size_triple) (simp_all add: unat_pow2_le15)

subsection \<open>Round trip and order of the keys\<close>

text \<open>
  Claim C3. For a size triple whose components are the powers of two \<open>2\<^sup>a\<close>,
  \<open>2\<^sup>b\<close>, \<open>2\<^sup>c\<close> with exponents at most 15, decoding the encoded key gives the
  triple back, and the key fits in 12 bits. Decoding any key gives, for each dimension,
  2 to the power of its field of four bits (bits 8 to 11, 4 to 7 and 0 to 3).
\<close>

theorem decode_encode_roundtrip:
  assumes "a \<le> 15" "b \<le> 15" "c \<le> 15"
    and "t = \<lparr>k = 2 ^ a, m = 2 ^ b, n = 2 ^ c\<rparr>"
  shows "size_triple_of_compact (compact_size_triple_t t) = t
         \<and> size_triple_of_compact (compact_size_triple (2 ^ a) (2 ^ b) (2 ^ c)) = t
         \<and> compact_size_triple_t t < 0x1000
         \<and> unat (k (size_triple_of_compact key)) = 2 ^ (unat key div 256 mod 16)
         \<and> unat (m (size_triple_of_compact key)) = 2 ^ (unat key div 16 mod 16)
         \<and> unat (n (size_triple_of_compact key)) = 2 ^ (unat key mod 16)"
proof -
  let ?key = "compact_size_triple (2 ^ a) (2 ^ b) (2 ^ c)"
  have key: "compact_size_triple_t t = ?key"
    by (simp add: compact_size_triple_t_def assms(4))
  have lt: "unat (2 ^ a :: size_t) < 2 ^ 16" "unat (2 ^ b :: size_t) < 2 ^ 16"
      "unat (2 ^ c :: size_t) < 2 ^ 16"
    by (rule unat_pow2_lt, fact)+
  have rt: "size_triple_of_compact ?key = t"
    by (rule size_triple_eqI)
       (simp_all add: decode_encode_general [OF lt] assms unat_pow2_le15)
  have "unat ?key < 4096"
    using assms(1-3) by (simp add: unat_key_pow2)
  then have "?key < 0x1000"
    by (simp add: word_less_nat_alt)
  with rt key unat_size_triple_of_compact [of key] show ?thesis by simp
qed

theorem decode_encode_roundtrip_witness:
  "(4::nat) \<le> 15 \<and> (7::nat) \<le> 15 \<and> (11::nat) \<le> 15
   \<and> size_triple_of_compact (compact_size_triple_t \<lparr>k = 16, m = 128, n = 2048\<rparr>)
       = \<lparr>k = 16, m = 128, n = 2048\<rparr>
   \<and> size_triple_of_compact (compact_size_triple 16 128 2048) = \<lparr>k = 16, m = 128, n = 2048\<rparr>
   \<and> compact_size_triple_t \<lparr>k = 16, m = 128, n = 2048\<rparr> < 0x1000"
  using decode_encode_roundtrip [of 4 7 11 "\<lparr>k = 16, m = 128, n = 2048\<rparr>"] by simp

text \<open>
  Claim C4. For two triples of powers of two with exponents at most 15, the unsigned
  comparison of the two keys is the lexicographic comparison of the triples of
  exponents: smaller, equal and (hence) greater agree, so the key grows strictly with
  each exponent when the other two are fixed.
\<close>

theorem key_order_lexicographic:
  assumes "a1 \<le> 15" "b1 \<le> 15" "c1 \<le> 15" "a2 \<le> 15" "b2 \<le> 15" "c2 \<le> 15"
  shows "((compact_size_triple (2 ^ a1) (2 ^ b1) (2 ^ c1) < compact_size_triple (2 ^ a2) (2 ^ b2) (2 ^ c2))
           = (a1 < a2 \<or> (a1 = a2 \<and> (b1 < b2 \<or> (b1 = b2 \<and> c1 < c2)))))
       \<and> ((compact_size_triple (2 ^ a1) (2 ^ b1) (2 ^ c1) = compact_size_triple (2 ^ a2) (2 ^ b2) (2 ^ c2))
           = (a1 = a2 \<and> b1 = b2 \<and> c1 = c2))"
proof -
  note u1 = unat_key_pow2 [OF assms(1-3)] and u2 = unat_key_pow2 [OF assms(4-6)]
  have "(compact_size_triple (2 ^ a1) (2 ^ b1) (2 ^ c1) < compact_size_triple (2 ^ a2) (2 ^ b2) (2 ^ c2))
           = (a1 < a2 \<or> (a1 = a2 \<and> (b1 < b2 \<or> (b1 = b2 \<and> c1 < c2))))"
    unfolding word_less_nat_alt u1 u2 using assms by (rule key_nat_less)
  moreover have "(compact_size_triple (2 ^ a1) (2 ^ b1) (2 ^ c1) = compact_size_triple (2 ^ a2) (2 ^ b2) (2 ^ c2))
           = (a1 = a2 \<and> b1 = b2 \<and> c1 = c2)"
    unfolding word_unat_eq_iff u1 u2 using assms by (rule key_nat_eq)
  ultimately show ?thesis by (rule conjI)
qed

theorem key_order_lexicographic_witness:
  "(4::nat) \<le> 15 \<and> (11::nat) \<le> 15 \<and> (5::nat) \<le> 15 \<and> (0::nat) \<le> 15
   \<and> compact_size_triple 16 2048 2048 < compact_size_triple 32 1 1
   \<and> compact_size_triple 16 2048 2048 \<noteq> compact_size_triple 32 1 1"
  using key_order_lexicographic [of 4 11 11 5 0 0] by simp

text \<open>
  Claim C10 fails where it says that encoding rounds every dimension down to a power
  of two. The logarithm of a dimension of \<open>2\<^sup>1\<^sup>6\<close> or more is 16 or more and does not
  fit the four bits that the key has for it: the logarithm of 65537 is 16, and the key
  of \<open>(65537, 16, 16)\<close> is decoded as \<open>(1, 16, 16)\<close>, not as \<open>(65536, 16, 16)\<close>.
\<close>

theorem encode_large_dimension_counterexample:
  "log2_pot 65537 = 16
   \<and> size_triple_of_compact (compact_size_triple 65537 16 16) = \<lparr>k = 1, m = 16, n = 16\<rparr>
   \<and> size_triple_of_compact (compact_size_triple 65537 16 16)
       \<noteq> \<lparr>k = 2 ^ unat (log2_pot 65537), m = 2 ^ unat (log2_pot 16), n = 2 ^ unat (log2_pot 16)\<rparr>"
proof -
  have l: "log2_pot 65537 = 16" "log2_pot 16 = 4"
    by code_simp+
  have c: "compact_size_triple 65537 16 16 = 0x1044"
    by code_simp
  have d: "size_triple_of_compact 0x1044 = \<lparr>k = 1, m = 16, n = 16\<rparr>"
    by (simp add: size_triple_of_compact_def)
  show ?thesis
    by (simp add: l c d)
qed

text \<open>
  Claim C10, amended. \<open>log2_pot\<close> is total (it is a function with a termination
  proof), it yields 0 at 0, and at every other \<open>x\<close> the exponent \<open>l\<close> with
  \<open>2\<^sup>l \<le> x < 2\<^sup>l\<^sup>+\<^sup>1\<close>. Encoding dimensions below \<open>2\<^sup>1\<^sup>6\<close> that are not powers of two
  does not fail: decoding the key gives each dimension rounded down to that power of
  two.
\<close>

theorem log2_pot_floor_log2:
  "log2_pot 0 = 0
   \<and> (x \<noteq> 0 \<longrightarrow> 2 ^ unat (log2_pot x) \<le> unat x \<and> unat x < 2 * 2 ^ unat (log2_pot x))
   \<and> (unat pk < 2 ^ 16 \<and> unat pm < 2 ^ 16 \<and> unat pn < 2 ^ 16 \<longrightarrow>
        size_triple_of_compact (compact_size_triple pk pm pn)
          = \<lparr>k = 2 ^ unat (log2_pot pk), m = 2 ^ unat (log2_pot pm), n = 2 ^ unat (log2_pot pn)\<rparr>)"
proof (intro conjI impI)
  have "unat (log2_pot 0) = 0" by (simp add: unat_log2_pot)
  then show "log2_pot 0 = 0" by (simp add: unat_eq_0)
next
  assume "x \<noteq> 0"
  then have "unat x \<noteq> 0" by (simp add: unat_eq_0)
  from halvings_bounds [OF this] show "2 ^ unat (log2_pot x) \<le> unat x"
    by (simp add: unat_log2_pot)
next
  assume "x \<noteq> 0"
  then have "unat x \<noteq> 0" by (simp add: unat_eq_0)
  from halvings_bounds [OF this] show "unat x < 2 * 2 ^ unat (log2_pot x)"
    by (simp add: unat_log2_pot)
next
  assume b: "unat pk < 2 ^ 16 \<and> unat pm < 2 ^ 16 \<and> unat pn < 2 ^ 16"
  then have lt: "unat pk < 2 ^ 16" "unat pm < 2 ^ 16" "unat pn < 2 ^ 16" by simp_all
  have p: "unat (2 ^ unat (log2_pot y) :: size_t) = 2 ^ halvings (unat y)" if "unat y < 2 ^ 16" for y
    using halvings_lt_16 [OF that] by (simp add: unat_log2_pot unat_pow2_size_t)
  show "size_triple_of_compact (compact_size_triple pk pm pn)
          = \<lparr>k = 2 ^ unat (log2_pot pk), m = 2 ^ unat (log2_pot pm), n = 2 ^ unat (log2_pot pn)\<rparr>"
    by (rule size_triple_eqI) (simp_all only: decode_encode_general [OF lt] p [OF lt(1)] p [OF lt(2)] p [OF lt(3)] size_triple_t.simps)
qed

theorem log2_pot_floor_log2_witness:
  "log2_pot 0 = 0 \<and> (5 :: size_t) \<noteq> 0 \<and> log2_pot 5 = 2
   \<and> (2::nat) ^ unat (log2_pot 5) \<le> unat (5 :: size_t)
   \<and> unat (5 :: size_t) < 2 * 2 ^ unat (log2_pot 5)
   \<and> unat (17 :: size_t) < 2 ^ 16 \<and> unat (129 :: size_t) < 2 ^ 16 \<and> unat (2049 :: size_t) < 2 ^ 16
   \<and> size_triple_of_compact (compact_size_triple 17 129 2049) = \<lparr>k = 16, m = 128, n = 2048\<rparr>"
proof -
  have l: "log2_pot 5 = 2" "log2_pot 17 = 4" "log2_pot 129 = 7" "log2_pot 2049 = 11"
    by code_simp+
  show ?thesis
    using log2_pot_floor_log2 [of 5 17 129 2049] by (simp add: l)
qed

section \<open>The result reducer\<close>

lemma benchmark_less_rank: "benchmark_less a b \<longleftrightarrow> rank a < rank b"
  by (auto simp: benchmark_less_def rank_def config_def)

lemma mset_insert_benchmark: "mset (insert_benchmark b xs) = add_mset b (mset xs)"
  by (induction xs) auto

lemma set_insert_benchmark: "set (insert_benchmark b xs) = insert b (set xs)"
  by (induction xs) auto

lemma sorted_insert_benchmark:
  "sorted (map rank xs) \<Longrightarrow> sorted (map rank (insert_benchmark b xs))"
  by (induction xs) (auto simp: benchmark_less_rank set_insert_benchmark)

lemma mset_sort_benchmarks: "mset (sort_benchmarks xs) = mset xs"
  by (induction xs) (auto simp: mset_insert_benchmark)

lemma sorted_sort_benchmarks: "sorted (map rank (sort_benchmarks xs))"
  by (induction xs) (auto simp: sorted_insert_benchmark)

lemma sorted_wrt_not_less:
  "sorted_wrt (\<lambda>a b. \<not> benchmark_less b a) ys \<longleftrightarrow> sorted (map rank ys)"
  by (simp add: sorted_map benchmark_less_rank not_less)

lemma collect_best_acc:
  "acc \<noteq> [] \<Longrightarrow> collect_best xs acc = acc @ keep_new (config (last acc)) xs"
proof (induction xs arbitrary: acc)
  case Nil
  then show ?case by simp
next
  case (Cons x xs)
  show ?case
  proof (cases "config (last acc) = config x")
    case True
    with Cons show ?thesis by (simp add: config_def)
  next
    case False
    then have "collect_best (x # xs) acc = collect_best xs (acc @ [x])"
      by (auto simp: config_def)
    also have "\<dots> = (acc @ [x]) @ keep_new (config (last (acc @ [x]))) xs"
      by (rule Cons.IH) simp
    finally show ?thesis using False by simp
  qed
qed

lemma collect_best_Nil: "collect_best [] [] = []"
  by simp

lemma collect_best_Cons: "collect_best (x # xs) [] = x # keep_new (config x) xs"
  using collect_best_acc [of "[x]" xs] by simp

lemma rank_le_config: "rank a \<le> rank b \<Longrightarrow> config a \<le> config b"
  by (auto simp: rank_def)

lemma rank_le_gflops: "rank a \<le> rank b \<Longrightarrow> config a = config b \<Longrightarrow> gflops b \<le> gflops a"
  by (auto simp: rank_def)

lemma set_keep_new: "set (keep_new p xs) \<subseteq> set xs"
proof (induction xs arbitrary: p)
  case Nil
  then show ?case by simp
next
  case (Cons x xs)
  from Cons.IH [of p] Cons.IH [of "config x"] show ?case by auto
qed

lemma keep_new_sorted:
  assumes "sorted (map rank xs)" "\<forall>x \<in> set xs. p \<le> config x"
  shows "(\<forall>e \<in> set (keep_new p xs). p < config e)
       \<and> sorted_wrt (\<lambda>a b. config a < config b) (keep_new p xs)
       \<and> (\<forall>e \<in> set (keep_new p xs). \<forall>y \<in> set xs. config y = config e \<longrightarrow> gflops y \<le> gflops e)
       \<and> config ` set (keep_new p xs) = config ` set xs - {p}"
  using assms
proof (induction xs arbitrary: p)
  case Nil
  then show ?case by simp
next
  case (Cons x xs)
  from Cons.prems have s: "sorted (map rank xs)" and le: "\<forall>y \<in> set xs. rank x \<le> rank y"
    by simp_all
  from le have cle: "\<forall>y \<in> set xs. config x \<le> config y"
    by (blast intro: rank_le_config)
  show ?case
  proof (cases "config x = p")
    case True
    have "\<forall>y \<in> set xs. p \<le> config y" using Cons.prems(2) by simp
    from Cons.IH [OF s this] have ih:
      "\<forall>e \<in> set (keep_new p xs). p < config e"
      "sorted_wrt (\<lambda>a b. config a < config b) (keep_new p xs)"
      "\<forall>e \<in> set (keep_new p xs). \<forall>y \<in> set xs. config y = config e \<longrightarrow> gflops y \<le> gflops e"
      "config ` set (keep_new p xs) = config ` set xs - {p}"
      by simp_all
    have k: "keep_new p (x # xs) = keep_new p xs" using True by simp
    have 1: "\<forall>e \<in> set (keep_new p (x # xs)). p < config e"
      unfolding k using ih(1) .
    have 2: "sorted_wrt (\<lambda>a b. config a < config b) (keep_new p (x # xs))"
      unfolding k using ih(2) .
    have 3: "\<forall>e \<in> set (keep_new p (x # xs)). \<forall>y \<in> set (x # xs). config y = config e \<longrightarrow> gflops y \<le> gflops e"
      unfolding k using ih(1,3) True by auto
    have 4: "config ` set (keep_new p (x # xs)) = config ` set (x # xs) - {p}"
      unfolding k ih(4) using True by auto
    show ?thesis by (rule conjI [OF 1 conjI [OF 2 conjI [OF 3 4]]])
  next
    case False
    with Cons.prems(2) have px: "p < config x" by auto
    from Cons.IH [OF s cle] have ih:
      "\<forall>e \<in> set (keep_new (config x) xs). config x < config e"
      "sorted_wrt (\<lambda>a b. config a < config b) (keep_new (config x) xs)"
      "\<forall>e \<in> set (keep_new (config x) xs). \<forall>y \<in> set xs. config y = config e \<longrightarrow> gflops y \<le> gflops e"
      "config ` set (keep_new (config x) xs) = config ` set xs - {config x}"
      by simp_all
    have xmax: "\<forall>y \<in> set xs. config y = config x \<longrightarrow> gflops y \<le> gflops x"
      using le by (metis rank_le_gflops)
    have k: "keep_new p (x # xs) = x # keep_new (config x) xs" using False by simp
    have 1: "\<forall>e \<in> set (keep_new p (x # xs)). p < config e"
      unfolding k using px ih(1) by auto
    have 2: "sorted_wrt (\<lambda>a b. config a < config b) (keep_new p (x # xs))"
      unfolding k using ih(1,2) by simp
    have 3: "\<forall>e \<in> set (keep_new p (x # xs)). \<forall>y \<in> set (x # xs). config y = config e \<longrightarrow> gflops y \<le> gflops e"
      unfolding k using xmax ih(1,3) by auto
    have np: "p \<notin> config ` set xs" using cle px by auto
    have 4: "config ` set (keep_new p (x # xs)) = config ` set (x # xs) - {p}"
      unfolding k using ih(4) np False by auto
    show ?thesis by (rule conjI [OF 1 conjI [OF 2 conjI [OF 3 4]]])
  qed
qed

lemma collect_best_sorted:
  assumes "sorted (map rank ys)"
  shows "set (collect_best ys []) \<subseteq> set ys"
    and "config ` set (collect_best ys []) = config ` set ys"
    and "sorted_wrt (\<lambda>a b. config a < config b) (collect_best ys [])"
    and "\<forall>e \<in> set (collect_best ys []). \<forall>y \<in> set ys. config y = config e \<longrightarrow> gflops y \<le> gflops e"
proof -
  show "set (collect_best ys []) \<subseteq> set ys"
  proof (cases ys)
    case Nil then show ?thesis by simp
  next
    case (Cons x xs)
    show ?thesis unfolding Cons collect_best_Cons using set_keep_new [of "config x" xs] by auto
  qed
  have "config ` set (collect_best ys []) = config ` set ys
      \<and> sorted_wrt (\<lambda>a b. config a < config b) (collect_best ys [])
      \<and> (\<forall>e \<in> set (collect_best ys []). \<forall>y \<in> set ys. config y = config e \<longrightarrow> gflops y \<le> gflops e)"
  proof (cases ys)
    case Nil then show ?thesis by simp
  next
    case (Cons x xs)
    from assms Cons have s: "sorted (map rank xs)" and le: "\<forall>y \<in> set xs. rank x \<le> rank y"
      by simp_all
    from le have cle: "\<forall>y \<in> set xs. config x \<le> config y"
      by (blast intro: rank_le_config)
    from keep_new_sorted [OF s cle] have ih:
      "\<forall>e \<in> set (keep_new (config x) xs). config x < config e"
      "sorted_wrt (\<lambda>a b. config a < config b) (keep_new (config x) xs)"
      "\<forall>e \<in> set (keep_new (config x) xs). \<forall>y \<in> set xs. config y = config e \<longrightarrow> gflops y \<le> gflops e"
      "config ` set (keep_new (config x) xs) = config ` set xs - {config x}"
      by simp_all
    have xmax: "\<forall>y \<in> set xs. config y = config x \<longrightarrow> gflops y \<le> gflops x"
      using le by (metis rank_le_gflops)
    have 1: "config ` set (x # keep_new (config x) xs) = config ` set (x # xs)"
      using ih(4) by auto
    have 2: "sorted_wrt (\<lambda>a b. config a < config b) (x # keep_new (config x) xs)"
      using ih(1,2) by simp
    have 3: "\<forall>e \<in> set (x # keep_new (config x) xs). \<forall>y \<in> set (x # xs). config y = config e \<longrightarrow> gflops y \<le> gflops e"
      using xmax ih(1,3) by auto
    show ?thesis unfolding Cons collect_best_Cons by (rule conjI [OF 1 conjI [OF 2 3]])
  qed
  then show "config ` set (collect_best ys []) = config ` set ys"
    and "sorted_wrt (\<lambda>a b. config a < config b) (collect_best ys [])"
    and "\<forall>e \<in> set (collect_best ys []). \<forall>y \<in> set ys. config y = config e \<longrightarrow> gflops y \<le> gflops e"
    by simp_all
qed

lemma sorted_wrt_less_distinct:
  "sorted_wrt (\<lambda>a b. config a < config b) xs \<Longrightarrow> distinct (map config xs)"
  by (induction xs) auto

lemma keep_new_find:
  assumes "sorted (map rank xs)" "\<forall>x \<in> set xs. p \<le> config x"
  shows "\<forall>e \<in> set (keep_new p xs). find (\<lambda>y. config y = config e) xs = Some e"
  using assms
proof (induction xs arbitrary: p)
  case Nil
  then show ?case by simp
next
  case (Cons x xs)
  from Cons.prems have s: "sorted (map rank xs)" and le: "\<forall>y \<in> set xs. rank x \<le> rank y"
    by simp_all
  from le have cle: "\<forall>y \<in> set xs. config x \<le> config y"
    by (blast intro: rank_le_config)
  show ?case
  proof (cases "config x = p")
    case True
    have pl: "\<forall>y \<in> set xs. p \<le> config y" using Cons.prems(2) by simp
    from keep_new_sorted [OF s pl] have gt: "\<forall>e \<in> set (keep_new p xs). p < config e" by simp
    from Cons.IH [OF s pl] gt True show ?thesis by auto
  next
    case False
    from keep_new_sorted [OF s cle]
    have gt: "\<forall>e \<in> set (keep_new (config x) xs). config x < config e" by simp
    from Cons.IH [OF s cle] gt False show ?thesis by auto
  qed
qed

lemma collect_best_find:
  assumes "sorted (map rank ys)"
  shows "\<forall>e \<in> set (collect_best ys []). find (\<lambda>y. config y = config e) ys = Some e"
proof (cases ys)
  case Nil then show ?thesis by simp
next
  case (Cons x xs)
  from assms Cons have s: "sorted (map rank xs)" and le: "\<forall>y \<in> set xs. rank x \<le> rank y"
    by simp_all
  from le have cle: "\<forall>y \<in> set xs. config x \<le> config y"
    by (blast intro: rank_le_config)
  from keep_new_sorted [OF s cle]
  have gt: "\<forall>e \<in> set (keep_new (config x) xs). config x < config e" by simp
  from keep_new_find [OF s cle] gt show ?thesis
    unfolding Cons collect_best_Cons by auto
qed

text \<open>
  Claim C1. The sort leaves a rearrangement of the finished benchmarks in which no
  benchmark is followed by a smaller one in the order of \<^verbatim>\<open>operator<\<close>, that is, in
  ascending order of the product key, then of the block key, then of the negated
  performance. The reduced list keeps, of each pair of keys, the first benchmark of the
  sorted list: it consists of benchmarks of the input, has every pair of keys of the
  input exactly once, in ascending order, and each benchmark kept has the highest
  performance among the benchmarks of the input with its pair of keys. The same holds
  of the scan of any rearrangement of the input that is sorted in this order, however
  the sort arranges benchmarks that compare equal. The three benchmarks
  (5, 5, 1.0), (5, 5, 3.0), (5, 6, 2.0) reduce to (5, 5, 3.0), (5, 6, 2.0).
\<close>

theorem reduce_benchmarks_best_per_config:
  "mset (sort_benchmarks xs) = mset xs
   \<and> sorted_wrt (\<lambda>a b. \<not> benchmark_less b a) (sort_benchmarks xs)
   \<and> sorted (map rank (sort_benchmarks xs))
   \<and> (\<forall>e \<in> set (reduce_benchmarks xs).
         find (\<lambda>y. config y = config e) (sort_benchmarks xs) = Some e)
   \<and> set (reduce_benchmarks xs) \<subseteq> set xs
   \<and> config ` set (reduce_benchmarks xs) = config ` set xs
   \<and> sorted_wrt (\<lambda>a b. config a < config b) (reduce_benchmarks xs)
   \<and> distinct (map config (reduce_benchmarks xs))
   \<and> (\<forall>e \<in> set (reduce_benchmarks xs). \<forall>y \<in> set xs.
         config y = config e \<longrightarrow> gflops y \<le> gflops e)
   \<and> (\<forall>ys. mset ys = mset xs \<and> sorted_wrt (\<lambda>a b. \<not> benchmark_less b a) ys \<longrightarrow>
         (\<forall>e \<in> set (collect_best ys []). find (\<lambda>y. config y = config e) ys = Some e)
         \<and> set (collect_best ys []) \<subseteq> set xs
         \<and> config ` set (collect_best ys []) = config ` set xs
         \<and> sorted_wrt (\<lambda>a b. config a < config b) (collect_best ys [])
         \<and> distinct (map config (collect_best ys []))
         \<and> (\<forall>e \<in> set (collect_best ys []). \<forall>y \<in> set xs.
               config y = config e \<longrightarrow> gflops y \<le> gflops e))
   \<and> reduce_benchmarks [trial 5 5 1, trial 5 5 3, trial 5 6 2] = [trial 5 5 3, trial 5 6 2]"
proof -
  have g: "(\<forall>e \<in> set (collect_best ys []). find (\<lambda>y. config y = config e) ys = Some e)
         \<and> set (collect_best ys []) \<subseteq> set xs
         \<and> config ` set (collect_best ys []) = config ` set xs
         \<and> sorted_wrt (\<lambda>a b. config a < config b) (collect_best ys [])
         \<and> distinct (map config (collect_best ys []))
         \<and> (\<forall>e \<in> set (collect_best ys []). \<forall>y \<in> set xs.
               config y = config e \<longrightarrow> gflops y \<le> gflops e)"
    if m: "mset ys = mset xs" and w: "sorted_wrt (\<lambda>a b. \<not> benchmark_less b a) ys" for ys
  proof -
    from w have s: "sorted (map rank ys)" by (simp only: sorted_wrt_not_less)
    from m have se: "set ys = set xs" by (rule mset_eq_setD)
    have 2: "\<forall>e \<in> set (collect_best ys []). find (\<lambda>y. config y = config e) ys = Some e"
      by (rule collect_best_find [OF s])
    have 3: "set (collect_best ys []) \<subseteq> set xs"
      using collect_best_sorted(1) [OF s] se by simp
    have 4: "config ` set (collect_best ys []) = config ` set xs"
      using collect_best_sorted(2) [OF s] se by simp
    have 5: "sorted_wrt (\<lambda>a b. config a < config b) (collect_best ys [])"
      by (rule collect_best_sorted(3) [OF s])
    have 6: "distinct (map config (collect_best ys []))"
      using 5 by (rule sorted_wrt_less_distinct)
    have 7: "\<forall>e \<in> set (collect_best ys []). \<forall>y \<in> set xs.
           config y = config e \<longrightarrow> gflops y \<le> gflops e"
      using collect_best_sorted(4) [OF s] se by simp
    from 2 3 4 5 6 7 show ?thesis by (intro conjI)
  qed
  let ?ys = "sort_benchmarks xs"
  have s: "sorted (map rank ?ys)" by (rule sorted_sort_benchmarks)
  have m: "mset ?ys = mset xs" by (rule mset_sort_benchmarks)
  have 1: "sorted_wrt (\<lambda>a b. \<not> benchmark_less b a) ?ys"
    using s by (simp only: sorted_wrt_not_less)
  note r = g [OF m 1, folded reduce_benchmarks_def]
  have 8: "reduce_benchmarks [trial 5 5 1, trial 5 5 3, trial 5 6 2] = [trial 5 5 3, trial 5 6 2]"
    by (simp add: reduce_benchmarks_def trial_def benchmark_less_def)
  have G: "\<forall>ys. mset ys = mset xs \<and> sorted_wrt (\<lambda>a b. \<not> benchmark_less b a) ys \<longrightarrow>
         (\<forall>e \<in> set (collect_best ys []). find (\<lambda>y. config y = config e) ys = Some e)
         \<and> set (collect_best ys []) \<subseteq> set xs
         \<and> config ` set (collect_best ys []) = config ` set xs
         \<and> sorted_wrt (\<lambda>a b. config a < config b) (collect_best ys [])
         \<and> distinct (map config (collect_best ys []))
         \<and> (\<forall>e \<in> set (collect_best ys []). \<forall>y \<in> set xs.
               config y = config e \<longrightarrow> gflops y \<le> gflops e)"
  proof (intro allI impI)
    fix ys
    assume "mset ys = mset xs \<and> sorted_wrt (\<lambda>a b. \<not> benchmark_less b a) ys"
    then have "mset ys = mset xs" "sorted_wrt (\<lambda>a b. \<not> benchmark_less b a) ys" by simp_all
    then show "(\<forall>e \<in> set (collect_best ys []). find (\<lambda>y. config y = config e) ys = Some e)
         \<and> set (collect_best ys []) \<subseteq> set xs
         \<and> config ` set (collect_best ys []) = config ` set xs
         \<and> sorted_wrt (\<lambda>a b. config a < config b) (collect_best ys [])
         \<and> distinct (map config (collect_best ys []))
         \<and> (\<forall>e \<in> set (collect_best ys []). \<forall>y \<in> set xs.
               config y = config e \<longrightarrow> gflops y \<le> gflops e)"
      by (rule g)
  qed
  note r1 = r [THEN conjunct1]
    and r2 = r [THEN conjunct2, THEN conjunct1]
    and r3 = r [THEN conjunct2, THEN conjunct2, THEN conjunct1]
    and r4 = r [THEN conjunct2, THEN conjunct2, THEN conjunct2, THEN conjunct1]
    and r5 = r [THEN conjunct2, THEN conjunct2, THEN conjunct2, THEN conjunct2, THEN conjunct1]
    and r6 = r [THEN conjunct2, THEN conjunct2, THEN conjunct2, THEN conjunct2, THEN conjunct2]
  show ?thesis
    by (rule conjI [OF m conjI [OF 1 conjI [OF s conjI [OF r1 conjI [OF r2 conjI [OF r3
          conjI [OF r4 conjI [OF r5 conjI [OF r6 conjI [OF G 8]]]]]]]]]])
qed

theorem reduce_benchmarks_best_per_config_witness:
  "trial 5 5 3 \<in> set (reduce_benchmarks [trial 5 5 1, trial 5 5 3, trial 5 6 2])
   \<and> trial 5 5 1 \<in> set [trial 5 5 1, trial 5 5 3, trial 5 6 2]
   \<and> config (trial 5 5 1) = config (trial 5 5 3)
   \<and> gflops (trial 5 5 1) \<le> gflops (trial 5 5 3)
   \<and> find (\<lambda>y. config y = config (trial 5 5 3))
        (sort_benchmarks [trial 5 5 1, trial 5 5 3, trial 5 6 2]) = Some (trial 5 5 3)"
proof -
  note t = reduce_benchmarks_best_per_config [of "[trial 5 5 1, trial 5 5 3, trial 5 6 2]"]
  note c2 = conjunct2
  note t4 = t [THEN c2, THEN c2, THEN c2, THEN conjunct1]
  note t9 = t [THEN c2, THEN c2, THEN c2, THEN c2, THEN c2, THEN c2, THEN c2, THEN c2,
      THEN conjunct1]
  note t11 = t [THEN c2, THEN c2, THEN c2, THEN c2, THEN c2, THEN c2, THEN c2, THEN c2,
      THEN c2, THEN c2]
  have i: "trial 5 5 3 \<in> set (reduce_benchmarks [trial 5 5 1, trial 5 5 3, trial 5 6 2])"
    unfolding t11 by simp
  have j: "trial 5 5 1 \<in> set [trial 5 5 1, trial 5 5 3, trial 5 6 2]" by simp
  have c: "config (trial 5 5 1) = config (trial 5 5 3)" by (simp add: config_def trial_def)
  from t9 [rule_format, OF i j c] have g: "gflops (trial 5 5 1) \<le> gflops (trial 5 5 3)" .
  from t4 [rule_format, OF i] have f: "find (\<lambda>y. config y = config (trial 5 5 3))
        (sort_benchmarks [trial 5 5 1, trial 5 5 3, trial 5 6 2]) = Some (trial 5 5 3)" .
  from i j c g f show ?thesis by (intro conjI)
qed

section \<open>The adaptive timer\<close>

subsection \<open>The doubling loop\<close>

lemma timing_loop_accept:
  "min_time \<le> elapsed i \<Longrightarrow>
   timing_loop elapsed min_time i
     = Some (Inr (i, binary32 (elapsed i / binary32 (real_of_int i))))"
  by (subst timing_loop.simps) (simp add: Let_def)

lemma timing_loop_double:
  "\<not> min_time \<le> elapsed i \<Longrightarrow> 2 * i \<le> INT_MAX \<Longrightarrow> INT_MIN \<le> 2 * i \<Longrightarrow>
   timing_loop elapsed min_time i = timing_loop elapsed min_time (2 * i)"
  by (subst timing_loop.simps) (simp add: Let_def)

lemma timing_loop_overflow:
  "\<not> min_time \<le> elapsed i \<Longrightarrow> INT_MAX < 2 * i \<Longrightarrow>
   timing_loop elapsed min_time i = Some (Inl Signed_Overflow)"
  by (subst timing_loop.simps) (simp add: Let_def)

lemma pow2_le_INT_MAX: "j \<le> 30 \<Longrightarrow> (2::int) ^ j \<le> 1073741824"
proof -
  assume "j \<le> 30"
  then have "(2::int) ^ j \<le> 2 ^ 30" by (rule power_increasing) simp
  then show ?thesis by simp
qed

lemma timing_loop_double_pow2:
  assumes "\<not> T \<le> elapsed ((2::int) ^ j)" "j < 30"
  shows "timing_loop elapsed T (2 ^ j) = timing_loop elapsed T (2 ^ Suc j)"
proof -
  have "(2::int) ^ Suc j \<le> 1073741824" using assms(2) by (intro pow2_le_INT_MAX) simp
  then have le: "2 * (2::int) ^ j \<le> 1073741824" by simp
  have nn: "(0::int) \<le> 2 ^ j" by simp
  have b: "2 * 2 ^ j \<le> INT_MAX" "INT_MIN \<le> 2 * (2::int) ^ j"
    unfolding INT_MAX_def INT_MIN_def using le nn by linarith+
  show ?thesis
    using timing_loop_double [of T elapsed "2 ^ j", OF assms(1) b] by simp
qed

text \<open>
  Within the range of \<^verbatim>\<open>int\<close> the loop accepts the first batch, of \<open>1, 2, 4, \<dots>\<close>
  iterations, of which the timing reaches the threshold.
\<close>

lemma timing_loop_first_batch_from:
  assumes "e \<le> 30" "T \<le> elapsed ((2::int) ^ e)"
  shows "d = e - j \<Longrightarrow> j \<le> e \<Longrightarrow> \<forall>i. j \<le> i \<and> i < e \<longrightarrow> \<not> T \<le> elapsed ((2::int) ^ i) \<Longrightarrow>
         timing_loop elapsed T (2 ^ j) = Some (Inr (2 ^ e, binary32 (elapsed (2 ^ e) / 2 ^ e)))"
proof (induction d arbitrary: j)
  case 0
  then have j: "j = e" by simp
  have "binary32 (real_of_int (2 ^ e)) = 2 ^ e"
    using binary32_power2 [of e] by simp
  with timing_loop_accept [of T elapsed "2 ^ e", OF assms(2)] show ?case
    unfolding j by simp
next
  case (Suc d)
  then have j: "j < e" "d = e - Suc j" "Suc j \<le> e" by simp_all
  have nacc: "\<not> T \<le> elapsed (2 ^ j)" using Suc.prems(3) j(1) by simp
  have "j < 30" using j(1) assms(1) by simp
  with nacc have "timing_loop elapsed T (2 ^ j) = timing_loop elapsed T (2 ^ Suc j)"
    by (rule timing_loop_double_pow2)
  moreover have "\<forall>i. Suc j \<le> i \<and> i < e \<longrightarrow> \<not> T \<le> elapsed ((2::int) ^ i)"
    using Suc.prems(3) by simp
  ultimately show ?case
    using Suc.IH [OF j(2,3)] by simp
qed

lemma timing_loop_first_batch:
  assumes "e \<le> 30" "T \<le> elapsed ((2::int) ^ e)" "\<forall>i<e. \<not> T \<le> elapsed ((2::int) ^ i)"
  shows "timing_loop elapsed T 1 = Some (Inr (2 ^ e, binary32 (elapsed (2 ^ e) / 2 ^ e)))"
  using timing_loop_first_batch_from [of e T elapsed e 0, OF assms(1,2)] assms(3) by simp

lemma timing_loop_never_accepts:
  assumes "\<forall>i \<le> 30. \<not> T \<le> elapsed ((2::int) ^ i)"
  shows "d = 30 - j \<Longrightarrow> j \<le> 30 \<Longrightarrow> timing_loop elapsed T (2 ^ j) = Some (Inl Signed_Overflow)"
proof (induction d arbitrary: j)
  case 0
  then have j: "j = 30" by simp
  have "\<not> T \<le> elapsed (2 ^ 30)" using assms order_refl by blast
  then show ?case unfolding j
    by (rule timing_loop_overflow [of T elapsed "2 ^ 30"]) (simp add: INT_MAX_def)
next
  case (Suc d)
  then have j: "j < 30" "d = 30 - Suc j" "Suc j \<le> 30" by simp_all
  have nacc: "\<not> T \<le> elapsed (2 ^ j)" using assms Suc.prems(2) by blast
  from nacc j(1) have "timing_loop elapsed T (2 ^ j) = timing_loop elapsed T (2 ^ Suc j)"
    by (rule timing_loop_double_pow2)
  with Suc.IH [OF j(2,3)] show ?case by simp
qed

text \<open>
  Claim C2, at an input where the program does not do what the claim says, and what
  the comment on \<^verbatim>\<open>g_min_accurate_time\<close> says (``we'll repeat measurements with more
  iterations until we get a timing above that threshold''). The kernel costs one
  picosecond for each product and the threshold is the default one, 0.01 seconds.
  The batches of \<open>1, 2, 4, \<dots>, 2\<^sup>3\<^sup>0\<close> products are all shorter than the threshold; the
  next doubling of the \<^verbatim>\<open>int\<close> counter overflows, which is undefined behaviour, and no
  count is accepted, although \<open>N = 2\<^sup>3\<^sup>4\<close> would satisfy the two inequalities of the claim.
\<close>

theorem timing_loop_overflow_counterexample:
  "timing_loop (deterministic_kernel (1 / 10 ^ 12)) g_min_accurate_time 1
     = Some (Inl Signed_Overflow)"
proof -
  have r: "binary32 (1 / 2 ^ 9) = 1 / 2 ^ 9"
    using binary32_representable [of 1 "- 9"] by (simp add: power_int_minus field_simps)
  have "\<forall>i \<le> 30. \<not> g_min_accurate_time \<le> deterministic_kernel (1 / 10 ^ 12) ((2::int) ^ i)"
  proof (intro allI impI)
    fix i :: nat
    assume "i \<le> 30"
    then have "(2::int) ^ i \<le> 1073741824" by (rule pow2_le_INT_MAX)
    then have "real_of_int ((2::int) ^ i) \<le> 1073741824" by linarith
    then have "real_of_int ((2::int) ^ i) * (1 / 10 ^ 12) \<le> 1 / 2 ^ 9"
      by simp
    then have "binary32 (real_of_int ((2::int) ^ i) * (1 / 10 ^ 12)) \<le> binary32 (1 / 2 ^ 9)"
      by (rule binary32_mono)
    then show "\<not> g_min_accurate_time \<le> deterministic_kernel (1 / 10 ^ 12) ((2::int) ^ i)"
      unfolding r by (simp add: g_min_accurate_time_value deterministic_kernel_def)
  qed
  from timing_loop_never_accepts [OF this, of 30 0] show ?thesis by simp
qed

subsection \<open>The matrix pool\<close>

lemma compact_128: "compact_size_triple 128 128 128 = 0x777"
  by code_simp

lemma decode_777: "size_triple_of_compact 0x777 = \<lparr>k = 128, m = 128, n = 128\<rparr>"
  by (simp add: size_triple_of_compact_def)

lemma probe_combined:
  "combined_three_matrices_sizes ((benchmark_t_3 g 128 128 128)\<lparr>min_working_set_size := 1, min_accurate_time := 1 / 10\<rparr>) = 196608"
  by (simp add: combined_three_matrices_sizes_def benchmark_t_3_def compact_128 decode_777 sizeof_Scalar_def)

lemma probe_pool:
  "matrix_pool_size ((benchmark_t_3 g 128 128 128)\<lparr>min_working_set_size := 1, min_accurate_time := 1 / 10\<rparr>) = 1"
  by (simp add: matrix_pool_size_def probe_combined working_set_size_def)

lemma unlikely_value: "unlikely_large_cache_size = 67108864"
  by (simp add: unlikely_large_cache_size_def)

text \<open>
  Claim C8 fails where a nonzero override is below 64 MiB: the clock probe itself runs
  its benchmark of three 128 by 128 matrices with the override 1, and the pool is then
  one triple of matrices, 196608 bytes.
\<close>

theorem pool_footprint_counterexample:
  "\<not> max (unat (min_working_set_size
                ((benchmark_t_3 0 128 128 128)\<lparr>min_working_set_size := 1, min_accurate_time := 1 / 10\<rparr>)))
          (unat unlikely_large_cache_size)
      \<le> unat (matrix_pool_size
                ((benchmark_t_3 0 128 128 128)\<lparr>min_working_set_size := 1, min_accurate_time := 1 / 10\<rparr>))
        * unat (combined_three_matrices_sizes
                ((benchmark_t_3 0 128 128 128)\<lparr>min_working_set_size := 1, min_accurate_time := 1 / 10\<rparr>))"
  by (simp add: probe_pool probe_combined unlikely_value)

lemma decoded_le_15:
  "\<exists>a b c. a \<le> 15 \<and> b \<le> 15 \<and> c \<le> 15
     \<and> unat (k (size_triple_of_compact x)) = 2 ^ a
     \<and> unat (m (size_triple_of_compact x)) = 2 ^ b
     \<and> unat (n (size_triple_of_compact x)) = 2 ^ c"
proof -
  have "(unat x div 256) mod 16 \<le> 15" "(unat x div 16) mod 16 \<le> 15" "unat x mod 16 \<le> 15"
    by simp_all
  then show ?thesis using unat_size_triple_of_compact [of x] by blast
qed

lemma pow2_prod_bound: "a \<le> 15 \<Longrightarrow> b \<le> 15 \<Longrightarrow> (2::nat) ^ a * 2 ^ b \<le> 2 ^ 30"
proof -
  assume "a \<le> 15" "b \<le> 15"
  then have "a + b \<le> 30" by simp
  then have "(2::nat) ^ (a + b) \<le> 2 ^ 30" by (rule power_increasing) simp
  then show ?thesis by (simp only: power_add)
qed

lemma unat_4_mult: "unat X \<le> 3 * 2 ^ 30 \<Longrightarrow> unat (4 * X :: size_t) = 4 * unat X"
  by (simp add: unat_word_ariths(2) [of 4 X])

lemma unat_combined:
  "\<exists>a b c. a \<le> 15 \<and> b \<le> 15 \<and> c \<le> 15 \<and>
     unat (combined_three_matrices_sizes bm) = 4 * (2 ^ a * 2 ^ b + 2 ^ a * 2 ^ c + 2 ^ b * 2 ^ c)"
proof -
  let ?t = "size_triple_of_compact (compact_product_size bm)"
  from decoded_le_15 [of "compact_product_size bm"] obtain a b c where
    le: "a \<le> 15" "b \<le> 15" "c \<le> 15"
    and u: "unat (k ?t) = 2 ^ a" "unat (m ?t) = 2 ^ b" "unat (n ?t) = 2 ^ c"
    by blast
  note ab = pow2_prod_bound [OF le(1,2)] and ac = pow2_prod_bound [OF le(1,3)]
    and bc = pow2_prod_bound [OF le(2,3)]
  have p1: "unat (k ?t * m ?t) = 2 ^ a * 2 ^ b"
    using ab by (simp add: unat_word_ariths u)
  have p2: "unat (k ?t * n ?t) = 2 ^ a * 2 ^ c"
    using ac by (simp add: unat_word_ariths u)
  have p3: "unat (m ?t * n ?t) = 2 ^ b * 2 ^ c"
    using bc by (simp add: unat_word_ariths u)
  have s1: "unat (k ?t * m ?t + k ?t * n ?t) = 2 ^ a * 2 ^ b + 2 ^ a * 2 ^ c"
    using ab ac by (simp add: unat_word_ariths(1) p1 p2)
  have s2: "unat (k ?t * m ?t + k ?t * n ?t + m ?t * n ?t)
            = 2 ^ a * 2 ^ b + 2 ^ a * 2 ^ c + 2 ^ b * 2 ^ c"
    using ab ac bc by (simp add: unat_word_ariths(1) [of "k ?t * m ?t + k ?t * n ?t"] s1 p3)
  let ?S = "k ?t * m ?t + k ?t * n ?t + m ?t * n ?t"
  have "unat ?S \<le> 3 * 2 ^ 30" unfolding s2 using ab ac bc by linarith
  then have "unat (4 * ?S) = 4 * unat ?S"
    by (rule unat_4_mult)
  then have "unat (combined_three_matrices_sizes bm)
        = 4 * (2 ^ a * 2 ^ b + 2 ^ a * 2 ^ c + 2 ^ b * 2 ^ c)"
    by (simp only: combined_three_matrices_sizes_def Let_def sizeof_Scalar_def s2)
  with le show ?thesis by blast
qed

lemma combined_bounds:
  "12 \<le> unat (combined_three_matrices_sizes bm)"
proof -
  from unat_combined [of bm] obtain a b c where
    u: "unat (combined_three_matrices_sizes bm) = 4 * (2 ^ a * 2 ^ b + 2 ^ a * 2 ^ c + 2 ^ b * 2 ^ c)"
    by blast
  have q: "(1::nat) \<le> 2 ^ x * 2 ^ y" for x y
    using mult_le_mono [of 1 "2 ^ x" 1 "2 ^ y"] by simp
  have "(1::nat) + 1 + 1 \<le> 2 ^ a * 2 ^ b + 2 ^ a * 2 ^ c + 2 ^ b * 2 ^ c"
    by (intro add_mono q)
  then have "4 * ((1::nat) + 1 + 1) \<le> 4 * (2 ^ a * 2 ^ b + 2 ^ a * 2 ^ c + 2 ^ b * 2 ^ c)"
    by (rule mult_le_mono2)
  then show ?thesis unfolding u by simp
qed

lemma unat_matrix_pool_size:
  "unat (matrix_pool_size bm)
     = 1 + unat (working_set_size bm) div unat (combined_three_matrices_sizes bm)"
proof -
  let ?w = "working_set_size bm" and ?c = "combined_three_matrices_sizes bm"
  have d: "unat (?w div ?c) = unat ?w div unat ?c" by (rule unat_div)
  have "unat ?w < 2 ^ 64" using unsigned_less [of ?w, where 'a = nat] by simp
  moreover have "unat ?w div unat ?c \<le> unat ?w div 12"
    by (rule div_le_mono2) (use combined_bounds [of bm] in simp_all)
  ultimately have "1 + unat (?w div ?c) < 2 ^ 64" unfolding d by simp
  then have "unat (1 + ?w div ?c) = 1 + unat (?w div ?c)"
    by (simp add: unat_word_ariths(1) [of 1 "?w div ?c"])
  then show ?thesis by (simp only: matrix_pool_size_def d)
qed

lemma nat_less_succ_div_mult: "0 < c \<Longrightarrow> (w::nat) < (1 + w div c) * c"
proof -
  assume "0 < c"
  then have "w mod c < c" by simp
  moreover have "w = w div c * c + w mod c" by simp
  ultimately have "w < w div c * c + c" by linarith
  then show ?thesis by (simp add: algebra_simps)
qed

text \<open>
  Claim C8, amended. The pool holds more bytes than the working-set size, which is the
  override of the trial when that is not 0 and the 64 MiB constant only when the
  override is 0: the footprint exceeds the override when one is given, and exceeds
  64 MiB when none is.
\<close>

theorem pool_footprint_exceeds_working_set:
  "unat (working_set_size bm)
     < unat (matrix_pool_size bm) * unat (combined_three_matrices_sizes bm)
   \<and> (min_working_set_size bm \<noteq> 0 \<longrightarrow>
        working_set_size bm = min_working_set_size bm
        \<and> unat (min_working_set_size bm)
             < unat (matrix_pool_size bm) * unat (combined_three_matrices_sizes bm))
   \<and> (min_working_set_size bm = 0 \<longrightarrow>
        working_set_size bm = 67108864
        \<and> 67108864 < unat (matrix_pool_size bm) * unat (combined_three_matrices_sizes bm))"
proof -
  have "0 < unat (combined_three_matrices_sizes bm)"
    using combined_bounds [of bm] by simp
  then have gt: "unat (working_set_size bm)
     < unat (matrix_pool_size bm) * unat (combined_three_matrices_sizes bm)"
    unfolding unat_matrix_pool_size by (rule nat_less_succ_div_mult)
  have nz: "min_working_set_size bm \<noteq> 0 \<Longrightarrow> working_set_size bm = min_working_set_size bm"
    by (simp add: working_set_size_def)
  have z: "min_working_set_size bm = 0 \<Longrightarrow> working_set_size bm = 67108864"
    by (simp add: working_set_size_def unlikely_value)
  show ?thesis
  proof (intro conjI impI)
    show "unat (working_set_size bm)
       < unat (matrix_pool_size bm) * unat (combined_three_matrices_sizes bm)" by (rule gt)
  next
    assume a: "min_working_set_size bm \<noteq> 0"
    then show "working_set_size bm = min_working_set_size bm" by (rule nz)
    with gt show "unat (min_working_set_size bm)
       < unat (matrix_pool_size bm) * unat (combined_three_matrices_sizes bm)" by simp
  next
    assume a: "min_working_set_size bm = 0"
    then show "working_set_size bm = 67108864" by (rule z)
    with gt show "67108864 < unat (matrix_pool_size bm) * unat (combined_three_matrices_sizes bm)"
      by simp
  qed
qed

theorem pool_footprint_exceeds_working_set_witness:
  "min_working_set_size (benchmark_t_3 0 128 128 128) = 0
   \<and> working_set_size (benchmark_t_3 0 128 128 128) = 67108864
   \<and> 67108864 < unat (matrix_pool_size (benchmark_t_3 0 128 128 128))
                  * unat (combined_three_matrices_sizes (benchmark_t_3 0 128 128 128))
   \<and> min_working_set_size (benchmark_t_3 1000000 128 128 128) \<noteq> 0
   \<and> working_set_size (benchmark_t_3 1000000 128 128 128) = 1000000
   \<and> 1000000 < unat (matrix_pool_size (benchmark_t_3 1000000 128 128 128))
                  * unat (combined_three_matrices_sizes (benchmark_t_3 1000000 128 128 128))"
proof -
  have a: "min_working_set_size (benchmark_t_3 0 128 128 128) = 0"
    and b: "min_working_set_size (benchmark_t_3 1000000 128 128 128) = 1000000"
    by (simp_all add: benchmark_t_3_def)
  from pool_footprint_exceeds_working_set [of "benchmark_t_3 0 128 128 128"]
       pool_footprint_exceeds_working_set [of "benchmark_t_3 1000000 128 128 128"] a b
  show ?thesis by simp
qed

section \<open>The clock probe\<close>

subsection \<open>Sorting respects pointwise order\<close>

lemma sorted_nth_filter:
  assumes "sorted s" "\<And>x y. x \<le> y \<Longrightarrow> P y \<Longrightarrow> P x" "i < length s"
  shows "P (s ! i) \<longleftrightarrow> i < length (filter P s)"
  using assms(1,3)
proof (induction s arbitrary: i)
  case Nil
  then show ?case by simp
next
  case (Cons a s)
  show ?case
  proof (cases "P a")
    case True
    show ?thesis
    proof (cases i)
      case 0
      with True show ?thesis by simp
    next
      case (Suc j)
      with Cons.prems have "sorted s" "j < length s" by simp_all
      from Cons.IH [OF this] True Suc show ?thesis by simp
    qed
  next
    case False
    have "\<not> P y" if "y \<in> set s" for y
    proof
      assume "P y"
      moreover from Cons.prems(1) that have "a \<le> y" by simp
      ultimately have "P a" using assms(2) by blast
      with False show False ..
    qed
    then have none: "\<forall>y \<in> set (a # s). \<not> P y" using False by simp
    then have "filter P (a # s) = []" by (simp only: filter_empty_conv)
    moreover have "\<not> P ((a # s) ! i)" using none Cons.prems(2) nth_mem by blast
    ultimately show ?thesis by simp
  qed
qed

lemma length_filter_sort: "length (filter P (sort xs)) = length (filter P (xs :: real list))"
proof -
  have "mset (filter P (sort xs)) = mset (filter P xs)" by simp
  then show ?thesis by (rule mset_eq_length)
qed

lemma filter_count_pointwise:
  assumes "list_all2 R xs ys" "\<And>x y. R x y \<Longrightarrow> Q y \<Longrightarrow> P x"
  shows "length (filter Q ys) \<le> length (filter P xs)"
  using assms(1)
proof (induction rule: list_all2_induct)
  case Nil
  then show ?case by simp
next
  case (Cons x xs y ys)
  then show ?case using assms(2) [of x y] by auto
qed

lemma sort_pointwise_le:
  fixes xs ys :: "real list"
  assumes "list_all2 (\<le>) xs ys" "i < length xs"
  shows "sort xs ! i \<le> sort ys ! i"
proof -
  from assms(1) have len: "length xs = length ys" by (rule list_all2_lengthD)
  let ?v = "sort ys ! i"
  have "i < length (filter (\<lambda>y. y \<le> ?v) (sort ys))"
    using sorted_nth_filter [of "sort ys" "\<lambda>y. y \<le> ?v" i] assms(2) len by simp
  then have "i < length (filter (\<lambda>y. y \<le> ?v) ys)" by (simp only: length_filter_sort)
  also have "\<dots> \<le> length (filter (\<lambda>x. x \<le> ?v) xs)"
    by (rule filter_count_pointwise [OF assms(1)]) simp
  finally have "i < length (filter (\<lambda>x. x \<le> ?v) (sort xs))" by (simp only: length_filter_sort)
  then show ?thesis
    using sorted_nth_filter [of "sort xs" "\<lambda>x. x \<le> ?v" i] assms(2) by simp
qed

lemma middle_four:
  assumes "length s = 8"
  shows "take 4 (drop 2 s) = [s ! 2, s ! 3, s ! 4, s ! 5 :: real]"
proof (rule nth_equalityI)
  show "length (take 4 (drop 2 s)) = length [s ! 2, s ! 3, s ! 4, s ! 5]"
    using assms by simp
next
  fix i
  assume "i < length (take 4 (drop 2 s))"
  then have "i < 4" by simp
  then have "i = 0 \<or> i = 1 \<or> i = 2 \<or> i = 3" by presburger
  then show "take 4 (drop 2 s) ! i = [s ! 2, s ! 3, s ! 4, s ! 5] ! i"
    using assms by (elim disjE) simp_all
qed

subsection \<open>The eight measurements\<close>

lemma benchmark_t_run_world:
  "benchmark_t_run b w = Some (Inr (b', w')) \<Longrightarrow> w' = w\<lparr>runs := runs w + 1\<rparr>"
  by (auto simp: benchmark_t_run_def Let_def split: option.splits sum.splits prod.splits if_splits)

lemma run_gflops_SomeD:
  assumes "run_gflops b w = Some g"
  shows "\<exists>b'. benchmark_t_run b w = Some (Inr (b', w\<lparr>runs := runs w + 1\<rparr>)) \<and> gflops b' = g"
proof -
  from assms obtain b' w' where r: "benchmark_t_run b w = Some (Inr (b', w'))" and g: "gflops b' = g"
    by (auto simp: run_gflops_def split: option.splits sum.splits prod.splits)
  from benchmark_t_run_world [OF r] r g show ?thesis by blast
qed

lemma probe_benchmark_value:
  "probe_benchmark w =
     \<lparr> compact_product_size = compact_size_triple 128 128 128, compact_block_size = 0,
       use_default_block_size = True, gflops = 0, min_working_set_size = 1,
       min_accurate_time = binary32 (1 / 10) \<rparr>"
  by (simp add: probe_benchmark_def benchmark_t_3_def)

lemma probe_benchmark_runs [simp]: "probe_benchmark (w\<lparr>runs := r\<rparr>) = probe_benchmark w"
  by (simp add: probe_benchmark_def)

lemma measure_loop_step:
  assumes "i < 8" "run_gflops (probe_benchmark w) w = Some g"
  shows "measure_loop i acc w = measure_loop (i + 1) (acc @ [g]) (w\<lparr>runs := runs w + 1\<rparr>)"
proof -
  from run_gflops_SomeD [OF assms(2)] obtain b' where
    "benchmark_t_run (probe_benchmark w) w = Some (Inr (b', w\<lparr>runs := runs w + 1\<rparr>))"
    "gflops b' = g" by blast
  with assms(1) show ?thesis
    by (subst measure_loop.simps) (simp add: probe_benchmark_def Let_def)
qed

lemma measure_loop_all:
  assumes "length gs = 8"
    and "\<forall>i<8. run_gflops (probe_benchmark w) (w\<lparr>runs := runs w + i\<rparr>) = Some (gs ! i)"
  shows "d = 8 - j \<Longrightarrow> j \<le> 8 \<Longrightarrow>
         measure_loop j acc (w\<lparr>runs := runs w + j\<rparr>)
           = Some (Inr (acc @ drop j gs, w\<lparr>runs := runs w + 8\<rparr>))"
proof (induction d arbitrary: j acc)
  case 0
  then have "j = 8" by simp
  then show ?case using assms(1) by (subst measure_loop.simps) simp
next
  case (Suc d)
  then have j: "j < 8" "d = 8 - Suc j" "Suc j \<le> 8" by simp_all
  let ?w = "w\<lparr>runs := runs w + j\<rparr>"
  have g: "run_gflops (probe_benchmark ?w) ?w = Some (gs ! j)"
    using assms(2) j(1) by simp
  have "measure_loop j acc ?w = measure_loop (j + 1) (acc @ [gs ! j]) (?w\<lparr>runs := runs ?w + 1\<rparr>)"
    using j(1) g by (rule measure_loop_step)
  also have "\<dots> = measure_loop (Suc j) (acc @ [gs ! j]) (w\<lparr>runs := runs w + Suc j\<rparr>)"
    by simp
  also have "\<dots> = Some (Inr ((acc @ [gs ! j]) @ drop (Suc j) gs, w\<lparr>runs := runs w + 8\<rparr>))"
    by (rule Suc.IH [OF j(2,3)])
  also have "(acc @ [gs ! j]) @ drop (Suc j) gs = acc @ drop j gs"
    using j(1) assms(1) by (simp add: Cons_nth_drop_Suc)
  finally show ?case .
qed

lemma measure_loop_returns:
  "measure_loop j acc w = Some (Inr (res, w')) \<Longrightarrow>
   \<exists>gs. length gs = 8 - j \<and> res = acc @ gs
      \<and> (\<forall>i<8 - j. run_gflops (probe_benchmark w) (w\<lparr>runs := runs w + i\<rparr>) = Some (gs ! i))
      \<and> w' = w\<lparr>runs := runs w + (8 - j)\<rparr>"
proof (induction j acc w arbitrary: res w' rule: measure_loop.induct)
  case (1 i all_gflops w)
  show ?case
  proof (cases "i < 8")
    case False
    with "1.prems" have "res = all_gflops \<and> w' = w"
      by (subst (asm) measure_loop.simps) simp
    with False show ?thesis by (intro exI [of _ "[]"]) simp
  next
    case True
    let ?b = "(benchmark_t_3 (g_min_working_set_size w) 128 128 128)
                   \<lparr>min_working_set_size := 1, min_accurate_time := binary32 (1 / 10)\<rparr>"
    from "1.prems" True obtain b' w1 where r: "benchmark_t_run ?b w = Some (Inr (b', w1))"
      and rec: "measure_loop (i + 1) (all_gflops @ [gflops b']) w1 = Some (Inr (res, w'))"
      by (subst (asm) measure_loop.simps)
         (auto simp: Let_def split: option.splits sum.splits prod.splits)
    from benchmark_t_run_world [OF r] have w1: "w1 = w\<lparr>runs := runs w + 1\<rparr>" .
    from "1.IH" [OF True refl r refl refl rec]
    obtain gs where gs: "length gs = 8 - (i + 1)" "res = (all_gflops @ [gflops b']) @ gs"
      "\<forall>j<8 - (i + 1). run_gflops (probe_benchmark w1) (w1\<lparr>runs := runs w1 + j\<rparr>) = Some (gs ! j)"
      "w' = w1\<lparr>runs := runs w1 + (8 - (i + 1))\<rparr>"
      by blast
    have g0: "run_gflops (probe_benchmark w) w = Some (gflops b')"
      using r by (simp add: run_gflops_def probe_benchmark_def)
    have all: "run_gflops (probe_benchmark w) (w\<lparr>runs := runs w + j\<rparr>) = Some ((gflops b' # gs) ! j)"
      if "j < 8 - i" for j
    proof (cases j)
      case 0
      with g0 show ?thesis by simp
    next
      case (Suc j')
      with that have "j' < 8 - (i + 1)" by simp
      with gs(3) have "run_gflops (probe_benchmark w1) (w1\<lparr>runs := runs w1 + j'\<rparr>) = Some (gs ! j')"
        by simp
      then show ?thesis unfolding Suc w1 by simp
    qed
    have "length (gflops b' # gs) = 8 - i" using gs(1) True by simp
    moreover have "res = all_gflops @ (gflops b' # gs)" using gs(2) by simp
    moreover have "w' = w\<lparr>runs := runs w + (8 - i)\<rparr>" using gs(4) True unfolding w1 by simp
    ultimately show ?thesis using all by blast
  qed
qed

lemma measure_clock_speed_value:
  assumes "length gs = 8"
    and "\<forall>i<8. run_gflops (probe_benchmark w) (w\<lparr>runs := runs w + i\<rparr>) = Some (gs ! i)"
  shows "measure_clock_speed w
           = (case clock_speed_estimate gs of
                None \<Rightarrow> Some (Inl (Not_Finite, w\<lparr>runs := runs w + 8\<rparr>))
              | Some r \<Rightarrow> Some (Inr (r, w\<lparr>runs := runs w + 8\<rparr>)))"
proof -
  from measure_loop_all [OF assms, of 8 0 "[]"]
  have "measure_loop 0 [] w = Some (Inr (gs, w\<lparr>runs := runs w + 8\<rparr>))" by simp
  then show ?thesis by (simp add: measure_clock_speed_def)
qed

lemma measure_clock_speed_returns:
  assumes "measure_clock_speed w = Some (Inr (r, w1))"
  shows "\<exists>gs. length gs = 8
           \<and> (\<forall>i<8. run_gflops (probe_benchmark w) (w\<lparr>runs := runs w + i\<rparr>) = Some (gs ! i))
           \<and> clock_speed_estimate gs = Some r \<and> w1 = w\<lparr>runs := runs w + 8\<rparr>"
proof -
  from assms obtain all_gflops where l: "measure_loop 0 [] w = Some (Inr (all_gflops, w1))"
    and e: "clock_speed_estimate all_gflops = Some r"
    by (auto simp: measure_clock_speed_def split: option.splits sum.splits prod.splits)
  from measure_loop_returns [OF l] e show ?thesis by auto
qed

lemma benchmark_t_run_first_batch:
  assumes "cpu_timer w (runs w) 1 = t" "min_accurate_time b \<le> t"
    and "binary32 (t / binary32 1) = time_per_iter" "time_per_iter \<noteq> 0"
    and "size_triple_of_compact (compact_product_size b) = productsizes"
    and "gflops_value productsizes time_per_iter = g" "finite32 g"
  shows "benchmark_t_run b w = Some (Inr (b\<lparr>gflops := g\<rparr>, w\<lparr>runs := runs w + 1\<rparr>))"
proof -
  have "min_accurate_time b \<le> cpu_timer w (runs w) 1"
    using assms(1,2) by simp
  then have "timing_loop (cpu_timer w (runs w)) (min_accurate_time b) 1
        = Some (Inr (1, binary32 (cpu_timer w (runs w) 1 / binary32 (real_of_int 1))))"
    by (rule timing_loop_accept)
  then have "timing_loop (cpu_timer w (runs w)) (min_accurate_time b) 1 = Some (Inr (1, time_per_iter))"
    using assms(1,3) by simp
  with assms(4-7) show ?thesis by (simp add: benchmark_t_run_def Let_def)
qed

lemma probe_run_gflops:
  assumes "cpu_timer w (runs w) 1 = t" "binary32 (1 / 10) \<le> t"
    and "binary32 (t / binary32 1) = time_per_iter" "time_per_iter \<noteq> 0"
    and "gflops_value \<lparr>k = 128, m = 128, n = 128\<rparr> time_per_iter = g" "finite32 g"
  shows "run_gflops (probe_benchmark w) w = Some g"
proof -
  have m: "min_accurate_time (probe_benchmark w) \<le> t"
    using assms(2) by (simp add: probe_benchmark_def)
  have c: "size_triple_of_compact (compact_product_size (probe_benchmark w))
           = \<lparr>k = 128, m = 128, n = 128\<rparr>"
    by (simp add: probe_benchmark_def benchmark_t_3_def compact_128 decode_777)
  show ?thesis
    unfolding run_gflops_def benchmark_t_run_first_batch [OF assms(1) m assms(3,4) c assms(5,6)]
    by simp
qed

subsection \<open>The estimate\<close>

lemma clock_speed_estimate_replicate:
  "clock_speed_estimate (replicate 8 g) =
     (let sum2 = binary32 (g + g);
          sum3 = binary32 (sum2 + g);
          stable_estimate = binary32 (sum3 + g);
          result = binary32 (stable_estimate * binary32 (123456 / 1000))
      in if finite32 sum2 \<and> finite32 sum3 \<and> finite32 stable_estimate \<and> finite32 result
         then Some result else None)"
proof -
  have "sort (replicate 8 g) = replicate 8 g"
    by (rule sorted_sort_id) simp
  then show ?thesis
    by (simp add: clock_speed_estimate_def)
qed

lemma clock_speed_estimate_SomeD:
  "clock_speed_estimate gs = Some v \<Longrightarrow>
   v = binary32 (binary32 (binary32 (binary32 (sort gs ! 2 + sort gs ! 3) + sort gs ! 4)
                   + sort gs ! 5) * binary32 (123456 / 1000))"
  by (simp add: clock_speed_estimate_def Let_def split: if_splits)

lemma list_all2_nth8:
  assumes "length xs = 8" "length ys = 8" "\<forall>i<8. R (xs ! i) (ys ! i)"
  shows "list_all2 R xs ys"
  using assms by (simp add: list_all2_conv_all_nth)

lemma clock_speed_estimate_mono:
  assumes "length gs = 8" "length gs' = 8" "\<forall>i<8. gs ! i \<le> gs' ! i"
    and "clock_speed_estimate gs = Some v" "clock_speed_estimate gs' = Some v'"
  shows "v \<le> v'"
proof -
  let ?s = "sort gs" and ?s' = "sort gs'"
  have a: "list_all2 (\<le>) gs gs'" using assms(1-3) by (rule list_all2_nth8)
  have le: "?s ! i \<le> ?s' ! i" if "i < 8" for i
    using sort_pointwise_le [OF a, of i] that assms(1) by simp
  have "binary32 (?s ! 2 + ?s ! 3) \<le> binary32 (?s' ! 2 + ?s' ! 3)"
    using le [of 2] le [of 3] by (intro binary32_mono) simp
  then have "binary32 (binary32 (?s ! 2 + ?s ! 3) + ?s ! 4)
             \<le> binary32 (binary32 (?s' ! 2 + ?s' ! 3) + ?s' ! 4)"
    using le [of 4] by (intro binary32_mono) simp
  then have "binary32 (binary32 (binary32 (?s ! 2 + ?s ! 3) + ?s ! 4) + ?s ! 5)
             \<le> binary32 (binary32 (binary32 (?s' ! 2 + ?s' ! 3) + ?s' ! 4) + ?s' ! 5)"
    using le [of 5] by (intro binary32_mono) simp
  then have "binary32 (binary32 (binary32 (?s ! 2 + ?s ! 3) + ?s ! 4) + ?s ! 5)
               * binary32 (123456 / 1000)
             \<le> binary32 (binary32 (binary32 (?s' ! 2 + ?s' ! 3) + ?s' ! 4) + ?s' ! 5)
               * binary32 (123456 / 1000)"
    by (rule mult_right_mono) (simp only: literal_123_456f, simp)
  then have "binary32 (binary32 (binary32 (binary32 (?s ! 2 + ?s ! 3) + ?s ! 4) + ?s ! 5)
                          * binary32 (123456 / 1000))
             \<le> binary32 (binary32 (binary32 (binary32 (?s' ! 2 + ?s' ! 3) + ?s' ! 4) + ?s' ! 5)
                          * binary32 (123456 / 1000))"
    by (rule binary32_mono)
  then show ?thesis
    by (simp only: clock_speed_estimate_SomeD [OF assms(4)] clock_speed_estimate_SomeD [OF assms(5)])
qed

lemma measure_clock_speed_uniform:
  assumes "\<forall>i<8. cpu_timer w (runs w + i) 1 = t" "binary32 (1 / 10) \<le> t"
    and "binary32 (t / binary32 1) = time_per_iter" "time_per_iter \<noteq> 0"
    and "gflops_value \<lparr>k = 128, m = 128, n = 128\<rparr> time_per_iter = g" "finite32 g"
    and "clock_speed_estimate (replicate 8 g) = Some v"
  shows "measure_clock_speed w = Some (Inr (v, w\<lparr>runs := runs w + 8\<rparr>))"
proof -
  have l: "length (replicate 8 g) = 8" by simp
  have h: "\<forall>i<8. run_gflops (probe_benchmark w) (w\<lparr>runs := runs w + i\<rparr>)
                  = Some (replicate 8 g ! i)"
  proof (intro allI impI)
    fix i :: nat assume i: "i < 8"
    let ?w = "w\<lparr>runs := runs w + i\<rparr>"
    have "cpu_timer ?w (runs ?w) 1 = t" using assms(1) i by simp
    from probe_run_gflops [OF this assms(2-6)] i
    show "run_gflops (probe_benchmark w) ?w = Some (replicate 8 g ! i)"
      by simp
  qed
  from measure_clock_speed_value [OF l h] assms(7) show ?thesis by simp
qed

lemma real_unat_128: "real (unat (128 :: size_t)) = 128"
  by simp

lemma real_unat_16: "real (unat (16 :: size_t)) = 16"
  by simp

subsection \<open>Probes when every batch takes the same time\<close>

text \<open>
  The values for a second, for the next \<^verbatim>\<open>float\<close> below a second, and for half a
  second: the performance that an execution stores, and the estimate of a probe.
\<close>

lemma at_1_float: "binary32 (1) = 1"
  by (subst binary32_eval [where e = "0" and j = 8388608])
     (simp_all add: round_half_even_def)

lemma at_1_threshold: "binary32 (1 / 10) \<le> 1"
  by (simp only: literal_0_1f) simp

lemma at_1_threshold_default: "g_min_accurate_time \<le> 1"
  by (simp only: g_min_accurate_time_value) simp

lemma at_1_tpi: "binary32 (1 / binary32 1) = 1"
  by (simp only: binary32_numerals div_by_1 at_1_float)

lemma at_1_nonzero: "(1 :: real) \<noteq> 0"
  by simp

lemma double_128_1: "binary64 (4835703278458517 / 2 ^ 81 * 128) = 4835703278458517 / 2 ^ 74"
  by (subst binary64_eval [where e = "- 22" and j = 4835703278458517])
     (simp_all add: round_half_even_def)

lemma double_128_2: "binary64 (4835703278458517 / 2 ^ 74 * 128) = 4835703278458517 / 2 ^ 67"
  by (subst binary64_eval [where e = "- 15" and j = 4835703278458517])
     (simp_all add: round_half_even_def)

lemma double_128_3: "binary64 (4835703278458517 / 2 ^ 67 * 128) = 4835703278458517 / 2 ^ 60"
  by (subst binary64_eval [where e = "- 8" and j = 4835703278458517])
     (simp_all add: round_half_even_def)

lemma gflops_128_at_1_quotient: "binary64 (4835703278458517 / 2 ^ 60 / (1)) = 4835703278458517 / 2 ^ 60"
  by (subst binary64_eval [where e = "- 8" and j = 4835703278458517])
     (simp_all add: round_half_even_def)

lemma gflops_128_at_1_float: "binary32 (4835703278458517 / 2 ^ 60) = 9007199 / 2 ^ 31"
  by (subst binary32_eval [where e = "- 8" and j = 9007199])
     (simp_all add: round_half_even_def)

lemma gflops_128_at_1: "gflops_value \<lparr>k = 128, m = 128, n = 128\<rparr> (1) = 9007199 / 2 ^ 31"
  by (simp only: gflops_value_def size_triple_t.simps real_unat_128 literal_2e_9
      double_128_1 double_128_2 double_128_3 gflops_128_at_1_quotient gflops_128_at_1_float)

lemma at_1_finite: "finite32 (9007199 / 2 ^ 31)"
  by (simp add: finite32_def FLT_MAX_def)

lemma estimate_at_1_sum2: "binary32 (9007199 / 2 ^ 31 + 9007199 / 2 ^ 31) = 9007199 / 2 ^ 30"
  by (subst binary32_eval [where e = "- 7" and j = 9007199])
     (simp_all add: round_half_even_def)

lemma estimate_at_1_sum3: "binary32 (9007199 / 2 ^ 30 + 9007199 / 2 ^ 31) = 6755399 / 2 ^ 29"
  by (subst binary32_eval [where e = "- 7" and j = 13510798])
     (simp_all add: round_half_even_def)

lemma estimate_at_1_sum4: "binary32 (6755399 / 2 ^ 29 + 9007199 / 2 ^ 31) = 9007199 / 2 ^ 29"
  by (subst binary32_eval [where e = "- 6" and j = 9007199])
     (simp_all add: round_half_even_def)

lemma estimate_at_1_product: "binary32 (9007199 / 2 ^ 29 * (16181625 / 2 ^ 17)) = 2171861 / 2 ^ 20"
  by (subst binary32_eval [where e = "1" and j = 8687444])
     (simp_all add: round_half_even_def)

lemma estimate_at_1: "clock_speed_estimate (replicate 8 (9007199 / 2 ^ 31)) = Some (2171861 / 2 ^ 20)"
  by (simp only: clock_speed_estimate_replicate Let_def literal_123_456f
      estimate_at_1_sum2 estimate_at_1_sum3 estimate_at_1_sum4 estimate_at_1_product)
     (simp add: finite32_def FLT_MAX_def)

lemma probe_at_1:
  assumes "\<forall>i<8. cpu_timer w (runs w + i) 1 = 1"
  shows "measure_clock_speed w = Some (Inr (2171861 / 2 ^ 20, w\<lparr>runs := runs w + 8\<rparr>))"
  by (rule measure_clock_speed_uniform [OF assms at_1_threshold at_1_tpi at_1_nonzero
        gflops_128_at_1 at_1_finite estimate_at_1])

lemma run_gflops_at_1:
  assumes "cpu_timer w (runs w) 1 = 1"
  shows "run_gflops (probe_benchmark w) w = Some (9007199 / 2 ^ 31)"
  by (rule probe_run_gflops [OF assms at_1_threshold at_1_tpi at_1_nonzero
        gflops_128_at_1 at_1_finite])

lemma below_1_float: "binary32 (16777215 / 2 ^ 24) = 16777215 / 2 ^ 24"
  by (subst binary32_eval [where e = "- 1" and j = 16777215])
     (simp_all add: round_half_even_def)

lemma below_1_threshold: "binary32 (1 / 10) \<le> 16777215 / 2 ^ 24"
  by (simp only: literal_0_1f) simp

lemma below_1_threshold_default: "g_min_accurate_time \<le> 16777215 / 2 ^ 24"
  by (simp only: g_min_accurate_time_value) simp

lemma below_1_tpi: "binary32 (16777215 / 2 ^ 24 / binary32 1) = 16777215 / 2 ^ 24"
  by (simp only: binary32_numerals div_by_1 below_1_float)

lemma below_1_nonzero: "(16777215 / 2 ^ 24 :: real) \<noteq> 0"
  by simp

lemma gflops_128_below_1_quotient: "binary64 (4835703278458517 / 2 ^ 60 / (16777215 / 2 ^ 24)) = 2417851783344455 / 2 ^ 59"
  by (subst binary64_eval [where e = "- 8" and j = 4835703566688910])
     (simp_all add: round_half_even_def)

lemma gflops_128_below_1_float: "binary32 (2417851783344455 / 2 ^ 59) = 281475 / 2 ^ 26"
  by (subst binary32_eval [where e = "- 8" and j = 9007200])
     (simp_all add: round_half_even_def)

lemma gflops_128_below_1: "gflops_value \<lparr>k = 128, m = 128, n = 128\<rparr> (16777215 / 2 ^ 24) = 281475 / 2 ^ 26"
  by (simp only: gflops_value_def size_triple_t.simps real_unat_128 literal_2e_9
      double_128_1 double_128_2 double_128_3 gflops_128_below_1_quotient gflops_128_below_1_float)

lemma below_1_finite: "finite32 (281475 / 2 ^ 26)"
  by (simp add: finite32_def FLT_MAX_def)

lemma estimate_below_1_sum2: "binary32 (281475 / 2 ^ 26 + 281475 / 2 ^ 26) = 281475 / 2 ^ 25"
  by (subst binary32_eval [where e = "- 7" and j = 9007200])
     (simp_all add: round_half_even_def)

lemma estimate_below_1_sum3: "binary32 (281475 / 2 ^ 25 + 281475 / 2 ^ 26) = 844425 / 2 ^ 26"
  by (subst binary32_eval [where e = "- 7" and j = 13510800])
     (simp_all add: round_half_even_def)

lemma estimate_below_1_sum4: "binary32 (844425 / 2 ^ 26 + 281475 / 2 ^ 26) = 281475 / 2 ^ 24"
  by (subst binary32_eval [where e = "- 6" and j = 9007200])
     (simp_all add: round_half_even_def)

lemma estimate_below_1_product: "binary32 (281475 / 2 ^ 24 * (16181625 / 2 ^ 17)) = 2171861 / 2 ^ 20"
  by (subst binary32_eval [where e = "1" and j = 8687444])
     (simp_all add: round_half_even_def)

lemma estimate_below_1: "clock_speed_estimate (replicate 8 (281475 / 2 ^ 26)) = Some (2171861 / 2 ^ 20)"
  by (simp only: clock_speed_estimate_replicate Let_def literal_123_456f
      estimate_below_1_sum2 estimate_below_1_sum3 estimate_below_1_sum4 estimate_below_1_product)
     (simp add: finite32_def FLT_MAX_def)

lemma probe_below_1:
  assumes "\<forall>i<8. cpu_timer w (runs w + i) 1 = 16777215 / 2 ^ 24"
  shows "measure_clock_speed w = Some (Inr (2171861 / 2 ^ 20, w\<lparr>runs := runs w + 8\<rparr>))"
  by (rule measure_clock_speed_uniform [OF assms below_1_threshold below_1_tpi below_1_nonzero
        gflops_128_below_1 below_1_finite estimate_below_1])

lemma run_gflops_below_1:
  assumes "cpu_timer w (runs w) 1 = 16777215 / 2 ^ 24"
  shows "run_gflops (probe_benchmark w) w = Some (281475 / 2 ^ 26)"
  by (rule probe_run_gflops [OF assms below_1_threshold below_1_tpi below_1_nonzero
        gflops_128_below_1 below_1_finite])

lemma at_half_float: "binary32 (1 / 2) = 1 / 2"
  by (subst binary32_eval [where e = "- 1" and j = 8388608])
     (simp_all add: round_half_even_def)

lemma at_half_threshold: "binary32 (1 / 10) \<le> 1 / 2"
  by (simp only: literal_0_1f) simp

lemma at_half_threshold_default: "g_min_accurate_time \<le> 1 / 2"
  by (simp only: g_min_accurate_time_value) simp

lemma at_half_tpi: "binary32 (1 / 2 / binary32 1) = 1 / 2"
  by (simp only: binary32_numerals div_by_1 at_half_float)

lemma at_half_nonzero: "(1 / 2 :: real) \<noteq> 0"
  by simp

lemma gflops_128_at_half_quotient: "binary64 (4835703278458517 / 2 ^ 60 / (1 / 2)) = 4835703278458517 / 2 ^ 59"
  by (subst binary64_eval [where e = "- 7" and j = 4835703278458517])
     (simp_all add: round_half_even_def)

lemma gflops_128_at_half_float: "binary32 (4835703278458517 / 2 ^ 59) = 9007199 / 2 ^ 30"
  by (subst binary32_eval [where e = "- 7" and j = 9007199])
     (simp_all add: round_half_even_def)

lemma gflops_128_at_half: "gflops_value \<lparr>k = 128, m = 128, n = 128\<rparr> (1 / 2) = 9007199 / 2 ^ 30"
  by (simp only: gflops_value_def size_triple_t.simps real_unat_128 literal_2e_9
      double_128_1 double_128_2 double_128_3 gflops_128_at_half_quotient gflops_128_at_half_float)

lemma at_half_finite: "finite32 (9007199 / 2 ^ 30)"
  by (simp add: finite32_def FLT_MAX_def)

lemma estimate_at_half_sum2: "binary32 (9007199 / 2 ^ 30 + 9007199 / 2 ^ 30) = 9007199 / 2 ^ 29"
  by (subst binary32_eval [where e = "- 6" and j = 9007199])
     (simp_all add: round_half_even_def)

lemma estimate_at_half_sum3: "binary32 (9007199 / 2 ^ 29 + 9007199 / 2 ^ 30) = 6755399 / 2 ^ 28"
  by (subst binary32_eval [where e = "- 6" and j = 13510798])
     (simp_all add: round_half_even_def)

lemma estimate_at_half_sum4: "binary32 (6755399 / 2 ^ 28 + 9007199 / 2 ^ 30) = 9007199 / 2 ^ 28"
  by (subst binary32_eval [where e = "- 5" and j = 9007199])
     (simp_all add: round_half_even_def)

lemma estimate_at_half_product: "binary32 (9007199 / 2 ^ 28 * (16181625 / 2 ^ 17)) = 2171861 / 2 ^ 19"
  by (subst binary32_eval [where e = "2" and j = 8687444])
     (simp_all add: round_half_even_def)

lemma estimate_at_half: "clock_speed_estimate (replicate 8 (9007199 / 2 ^ 30)) = Some (2171861 / 2 ^ 19)"
  by (simp only: clock_speed_estimate_replicate Let_def literal_123_456f
      estimate_at_half_sum2 estimate_at_half_sum3 estimate_at_half_sum4 estimate_at_half_product)
     (simp add: finite32_def FLT_MAX_def)

lemma probe_at_half:
  assumes "\<forall>i<8. cpu_timer w (runs w + i) 1 = 1 / 2"
  shows "measure_clock_speed w = Some (Inr (2171861 / 2 ^ 19, w\<lparr>runs := runs w + 8\<rparr>))"
  by (rule measure_clock_speed_uniform [OF assms at_half_threshold at_half_tpi at_half_nonzero
        gflops_128_at_half at_half_finite estimate_at_half])

lemma run_gflops_at_half:
  assumes "cpu_timer w (runs w) 1 = 1 / 2"
  shows "run_gflops (probe_benchmark w) w = Some (9007199 / 2 ^ 30)"
  by (rule probe_run_gflops [OF assms at_half_threshold at_half_tpi at_half_nonzero
        gflops_128_at_half at_half_finite])


lemma steady_world_simps:
  "cpu_timer (steady_world t) = (\<lambda>r i. t)" "runs (steady_world t) = 0"
  "sleeps (steady_world t) = []" "real_reads (steady_world t) = 0"
  by (simp_all add: steady_world_def world_of_def)

text \<open>
  Claim C7 fails where it says that pointwise higher measurements give a higher
  estimate. When every batch of the probe takes one second, each of the eight
  executions stores \<open>9007199 / 2\<^sup>3\<^sup>1\<close> (0.0041943038...); when every batch takes the
  next \<^verbatim>\<open>float\<close> below one second, \<open>16777215 / 2\<^sup>2\<^sup>4\<close>, each of them stores the next
  \<^verbatim>\<open>float\<close>, \<open>9007200 / 2\<^sup>3\<^sup>1\<close>. The additions and the multiplication round both lists
  to the same estimate, \<open>2171861 / 2\<^sup>2\<^sup>0\<close> (2.0712480...).
\<close>

theorem clock_probe_equal_estimates_counterexample:
  "map (\<lambda>i. run_gflops (probe_benchmark (steady_world 1)) ((steady_world 1)\<lparr>runs := i\<rparr>)) [0..<8]
     = replicate 8 (Some (9007199 / 2 ^ 31))
   \<and> map (\<lambda>i. run_gflops (probe_benchmark (steady_world (16777215 / 2 ^ 24)))
                 ((steady_world (16777215 / 2 ^ 24))\<lparr>runs := i\<rparr>)) [0..<8]
     = replicate 8 (Some (281475 / 2 ^ 26))
   \<and> (9007199 / 2 ^ 31 :: real) < 281475 / 2 ^ 26
   \<and> measure_clock_speed (steady_world 1)
       = Some (Inr (2171861 / 2 ^ 20, (steady_world 1)\<lparr>runs := 8\<rparr>))
   \<and> measure_clock_speed (steady_world (16777215 / 2 ^ 24))
       = Some (Inr (2171861 / 2 ^ 20, (steady_world (16777215 / 2 ^ 24))\<lparr>runs := 8\<rparr>))"
proof -
  have a: "run_gflops (probe_benchmark (steady_world 1)) ((steady_world 1)\<lparr>runs := i\<rparr>)
           = Some (9007199 / 2 ^ 31)" for i
    using run_gflops_at_1 [of "(steady_world 1)\<lparr>runs := i\<rparr>"] by (simp add: steady_world_simps)
  have b: "run_gflops (probe_benchmark (steady_world (16777215 / 2 ^ 24)))
             ((steady_world (16777215 / 2 ^ 24))\<lparr>runs := i\<rparr>) = Some (281475 / 2 ^ 26)" for i
    using run_gflops_below_1 [of "(steady_world (16777215 / 2 ^ 24))\<lparr>runs := i\<rparr>"]
    by (simp add: steady_world_simps)
  have c: "measure_clock_speed (steady_world 1)
           = Some (Inr (2171861 / 2 ^ 20, (steady_world 1)\<lparr>runs := 8\<rparr>))"
    using probe_at_1 [of "steady_world 1"] by (simp add: steady_world_simps)
  have d: "measure_clock_speed (steady_world (16777215 / 2 ^ 24))
           = Some (Inr (2171861 / 2 ^ 20, (steady_world (16777215 / 2 ^ 24))\<lparr>runs := 8\<rparr>))"
    using probe_below_1 [of "steady_world (16777215 / 2 ^ 24)"] by (simp add: steady_world_simps)
  have e: "(9007199 / 2 ^ 31 :: real) < 281475 / 2 ^ 26"
    by simp
  have a': "map (\<lambda>i. run_gflops (probe_benchmark (steady_world 1)) ((steady_world 1)\<lparr>runs := i\<rparr>))
              [0..<8] = replicate 8 (Some (9007199 / 2 ^ 31))"
    by (simp only: a map_replicate_const length_upt diff_zero)
  have b': "map (\<lambda>i. run_gflops (probe_benchmark (steady_world (16777215 / 2 ^ 24)))
                 ((steady_world (16777215 / 2 ^ 24))\<lparr>runs := i\<rparr>)) [0..<8]
              = replicate 8 (Some (281475 / 2 ^ 26))"
    by (simp only: b map_replicate_const length_upt diff_zero)
  from a' b' e c d show ?thesis
    by (intro conjI)
qed

text \<open>
  Claim C7, amended. A call of \<^verbatim>\<open>measure_clock_speed\<close> returns exactly when the next
  eight executions of \<^verbatim>\<open>run\<close> on one and the same benchmark (three 128 by 128
  matrices, default block sizes, working-set size 1, minimum duration \<^verbatim>\<open>0.1f\<close>)
  return and the estimate computed from their eight results is finite; it makes these
  eight executions and no other. The estimate is the sum of the four middle values of
  the sorted results, that is without the two lowest and the two highest, added from
  left to right, times \<^verbatim>\<open>123.456f\<close>, where each addition and the multiplication rounds
  to \<^verbatim>\<open>float\<close>. Of two lists of results, the one that is pointwise at least as high gives
  an estimate that is at least as high; it need not be higher when the results are.
\<close>

theorem clock_probe_trimmed_sum:
  "(measure_clock_speed w = Some (Inr (r, w1)) \<longleftrightarrow>
      (\<exists>all_gflops. length all_gflops = 8
         \<and> (\<forall>i<8. run_gflops
                     \<lparr> compact_product_size = compact_size_triple 128 128 128,
                       compact_block_size = 0, use_default_block_size = True, gflops = 0,
                       min_working_set_size = 1, min_accurate_time = binary32 (1 / 10) \<rparr>
                     (w\<lparr>runs := runs w + i\<rparr>) = Some (all_gflops ! i))
         \<and> clock_speed_estimate all_gflops = Some r
         \<and> w1 = w\<lparr>runs := runs w + 8\<rparr>))
   \<and> (length gs = 8 \<and> clock_speed_estimate gs = Some v \<longrightarrow>
        take 4 (drop 2 (sort gs)) = [sort gs ! 2, sort gs ! 3, sort gs ! 4, sort gs ! 5]
        \<and> v = binary32 (binary32 (binary32 (binary32 (sort gs ! 2 + sort gs ! 3) + sort gs ! 4)
                                     + sort gs ! 5) * binary32 (123456 / 1000)))
   \<and> (length gs = 8 \<and> length gs' = 8 \<and> (\<forall>i<8. gs ! i \<le> gs' ! i)
        \<and> clock_speed_estimate gs = Some v \<and> clock_speed_estimate gs' = Some v' \<longrightarrow> v \<le> v')"
proof (intro conjI impI iffI)
  assume "measure_clock_speed w = Some (Inr (r, w1))"
  from measure_clock_speed_returns [OF this]
  show "\<exists>all_gflops. length all_gflops = 8
         \<and> (\<forall>i<8. run_gflops
                     \<lparr> compact_product_size = compact_size_triple 128 128 128,
                       compact_block_size = 0, use_default_block_size = True, gflops = 0,
                       min_working_set_size = 1, min_accurate_time = binary32 (1 / 10) \<rparr>
                     (w\<lparr>runs := runs w + i\<rparr>) = Some (all_gflops ! i))
         \<and> clock_speed_estimate all_gflops = Some r
         \<and> w1 = w\<lparr>runs := runs w + 8\<rparr>"
    by (simp only: probe_benchmark_value)
next
  assume "\<exists>all_gflops. length all_gflops = 8
         \<and> (\<forall>i<8. run_gflops
                     \<lparr> compact_product_size = compact_size_triple 128 128 128,
                       compact_block_size = 0, use_default_block_size = True, gflops = 0,
                       min_working_set_size = 1, min_accurate_time = binary32 (1 / 10) \<rparr>
                     (w\<lparr>runs := runs w + i\<rparr>) = Some (all_gflops ! i))
         \<and> clock_speed_estimate all_gflops = Some r
         \<and> w1 = w\<lparr>runs := runs w + 8\<rparr>"
  then obtain all_gflops where l: "length all_gflops = 8"
    and h: "\<forall>i<8. run_gflops (probe_benchmark w) (w\<lparr>runs := runs w + i\<rparr>) = Some (all_gflops ! i)"
    and e: "clock_speed_estimate all_gflops = Some r" and w1: "w1 = w\<lparr>runs := runs w + 8\<rparr>"
    by (auto simp only: probe_benchmark_value)
  from measure_clock_speed_value [OF l h] e w1
  show "measure_clock_speed w = Some (Inr (r, w1))" by simp
next
  assume "length gs = 8 \<and> clock_speed_estimate gs = Some v"
  then show "take 4 (drop 2 (sort gs)) = [sort gs ! 2, sort gs ! 3, sort gs ! 4, sort gs ! 5]"
    by (intro middle_four) simp
next
  assume "length gs = 8 \<and> clock_speed_estimate gs = Some v"
  then show "v = binary32 (binary32 (binary32 (binary32 (sort gs ! 2 + sort gs ! 3) + sort gs ! 4)
                                     + sort gs ! 5) * binary32 (123456 / 1000))"
    by (intro clock_speed_estimate_SomeD) simp
next
  assume "length gs = 8 \<and> length gs' = 8 \<and> (\<forall>i<8. gs ! i \<le> gs' ! i)
        \<and> clock_speed_estimate gs = Some v \<and> clock_speed_estimate gs' = Some v'"
  then show "v \<le> v'"
    using clock_speed_estimate_mono [of gs gs' v v'] by blast
qed

theorem clock_probe_trimmed_sum_witness:
  "measure_clock_speed (steady_world 1) = Some (Inr (2171861 / 2 ^ 20, (steady_world 1)\<lparr>runs := 8\<rparr>))
   \<and> clock_speed_estimate (replicate 8 (9007199 / 2 ^ 31)) = Some (2171861 / 2 ^ 20)
   \<and> clock_speed_estimate (replicate 8 (9007199 / 2 ^ 30)) = Some (2171861 / 2 ^ 19)
   \<and> take 4 (drop 2 (sort (replicate 8 (9007199 / 2 ^ 31 :: real))))
       = [sort (replicate 8 (9007199 / 2 ^ 31)) ! 2, sort (replicate 8 (9007199 / 2 ^ 31)) ! 3,
          sort (replicate 8 (9007199 / 2 ^ 31)) ! 4, sort (replicate 8 (9007199 / 2 ^ 31)) ! 5]
   \<and> (2171861 / 2 ^ 20 :: real)
       = binary32 (binary32 (binary32 (binary32 (sort (replicate 8 (9007199 / 2 ^ 31)) ! 2
                                                   + sort (replicate 8 (9007199 / 2 ^ 31)) ! 3)
                                         + sort (replicate 8 (9007199 / 2 ^ 31)) ! 4)
                               + sort (replicate 8 (9007199 / 2 ^ 31)) ! 5) * binary32 (123456 / 1000))
   \<and> (2171861 / 2 ^ 20 :: real) \<le> 2171861 / 2 ^ 19"
proof -
  let ?w = "steady_world 1"
  let ?gs = "replicate 8 (9007199 / 2 ^ 31 :: real)" and ?gs' = "replicate 8 (9007199 / 2 ^ 30 :: real)"
  let ?b = "\<lparr> compact_product_size = compact_size_triple 128 128 128,
               compact_block_size = 0, use_default_block_size = True, gflops = 0,
               min_working_set_size = 1, min_accurate_time = binary32 (1 / 10) \<rparr>"
  note t = clock_probe_trimmed_sum [of ?w "2171861 / 2 ^ 20" "?w\<lparr>runs := 8\<rparr>" ?gs "2171861 / 2 ^ 20" ?gs' "2171861 / 2 ^ 19"]
  have l: "length ?gs = 8" "length ?gs' = 8" by simp_all
  have le: "\<forall>i<8. ?gs ! i \<le> ?gs' ! i" by simp
  have h: "\<forall>i<8. run_gflops ?b (?w\<lparr>runs := runs ?w + i\<rparr>) = Some (?gs ! i)"
  proof (intro allI impI)
    fix i :: nat assume i: "i < 8"
    have "run_gflops (probe_benchmark (?w\<lparr>runs := runs ?w + i\<rparr>)) (?w\<lparr>runs := runs ?w + i\<rparr>)
          = Some (9007199 / 2 ^ 31)"
      by (rule run_gflops_at_1) (simp add: steady_world_simps)
    with i show "run_gflops ?b (?w\<lparr>runs := runs ?w + i\<rparr>) = Some (?gs ! i)"
      by (simp add: probe_benchmark_value)
  qed
  have "\<exists>all_gflops. length all_gflops = 8
         \<and> (\<forall>i<8. run_gflops ?b (?w\<lparr>runs := runs ?w + i\<rparr>) = Some (all_gflops ! i))
         \<and> clock_speed_estimate all_gflops = Some (2171861 / 2 ^ 20)
         \<and> ?w\<lparr>runs := 8\<rparr> = ?w\<lparr>runs := runs ?w + 8\<rparr>"
    using l(1) h estimate_at_1 by (intro exI [of _ ?gs]) (simp add: steady_world_simps)
  with t have 1: "measure_clock_speed ?w = Some (Inr (2171861 / 2 ^ 20, ?w\<lparr>runs := 8\<rparr>))"
    by blast
  from t l(1) estimate_at_1
  have 2: "take 4 (drop 2 (sort ?gs)) = [sort ?gs ! 2, sort ?gs ! 3, sort ?gs ! 4, sort ?gs ! 5]"
    and 3: "(2171861 / 2 ^ 20 :: real)
       = binary32 (binary32 (binary32 (binary32 (sort ?gs ! 2 + sort ?gs ! 3) + sort ?gs ! 4)
                               + sort ?gs ! 5) * binary32 (123456 / 1000))"
    by blast+
  from t l le estimate_at_1 estimate_at_half have 4: "(2171861 / 2 ^ 20 :: real) \<le> 2171861 / 2 ^ 19"
    by blast
  from 1 estimate_at_1 estimate_at_half 2 3 4 show ?thesis
    by (intro conjI)
qed

section \<open>The scheduler\<close>

subsection \<open>What the probe does to the world\<close>

lemma in_world_simps [simp]:
  "in_world f None = None"
  "in_world f (Some (Inl (e, w))) = Some (Inl (e, f w))"
  "in_world f (Some (Inr (x, w))) = Some (Inr (x, f w))"
  by (simp_all add: in_world_def)











subsection \<open>The sleeping loop\<close>

lemma sleep_loop_done:
  "\<not> cur < binary32 (tolerance_lower_clock_speed * mx) \<Longrightarrow>
   sleep_loop mx cur secs rr w = Some (Inr ((cur, rr), w))"
  by (subst sleep_loop.simps) simp


lemma sleep_loop_sleep:
  "cur < binary32 (tolerance_lower_clock_speed * mx) \<Longrightarrow> \<not> 300 < secs \<Longrightarrow>
   sleep_loop mx cur secs rr w =
     (case measure_clock_speed (w\<lparr>sleeps := sleeps w @ [secs]\<rparr>) of
        None \<Rightarrow> None
      | Some (Inl fw) \<Rightarrow> Some (Inl fw)
      | Some (Inr (current', w')) \<Rightarrow> sleep_loop mx current' ((secs * 2) mod 2 ^ 32) True w')"
  by (subst sleep_loop.simps) simp



lemma upt_snoc_pow: "map ((^) (2::nat)) [0..<j] @ [2 ^ j] = map ((^) 2) [0..<Suc j]"
  by simp




lemma probe_estimate_runs [simp]: "probe_estimate (w\<lparr>runs := r'\<rparr>) r = probe_estimate w r"
  by (simp add: probe_estimate_def)


lemma tolerance_lower_clock_speed_value: "tolerance_lower_clock_speed = 2055209 / 2 ^ 21"
  unfolding tolerance_lower_clock_speed_def
  by (subst binary32_eval [where e = "- 1" and j = 16441672])
     (simp_all add: round_half_even_def)




subsection \<open>What the scheduler does to the benchmarks\<close>

lemma parameters_gflops [simp]: "parameters (b\<lparr>gflops := g\<rparr>) = parameters b"
  by (simp add: parameters_def)







lemma getRealTime_value:
  "getRealTime w = (real_timer w (real_reads w), w\<lparr>real_reads := real_reads w + 1\<rparr>)"
  by (simp add: getRealTime_def)


lemma run_all_continue:
  "first_benchmark_to_run c < length bs \<Longrightarrow>
   run_all bs c w =
     (case try_run_some_benchmarks bs c w of
        None \<Rightarrow> None
      | Some (Inl fw) \<Rightarrow> Some (Inl fw)
      | Some (Inr ((benchmarks', c'), w')) \<Rightarrow> run_all benchmarks' c' w')"
  by (subst run_all.simps) simp

lemma check_clock_speed_within:
  assumes "idx = len \<or> binary64 (time_last + 60) < time_now"
    and "measure_clock_speed w0 = Some (Inr (current, w1))"
    and "\<not> current > binary32 (tolerance_higher_clock_speed * max_clock_speed c)"
    and "\<not> current < binary32 (tolerance_lower_clock_speed * max_clock_speed c)"
  shows "check_clock_speed len idx time_now time_last c w0
         = Some (Inr ((False, time_now, c\<lparr>first_benchmark_to_run := idx\<rparr>), w1))"
  using assms by (simp add: check_clock_speed_def)

lemma try_run_loop_run:
  assumes "check_clock_speed (length bs) idx (real_timer w (real_reads w)) time_last c
             (w\<lparr>real_reads := real_reads w + 1\<rparr>) = Some (Inr ((False, t', c'), w1))"
    and "idx < length bs"
    and "benchmark_t_run (bs ! idx) w1 = Some (Inr (b', w2))"
  shows "try_run_loop time_last idx bs c w = try_run_loop t' (idx + 1) (bs[idx := b']) c' w2"
  using assms by (subst try_run_loop.simps) (simp add: getRealTime_value)

lemma try_run_loop_done:
  assumes "check_clock_speed (length bs) (length bs) (real_timer w (real_reads w)) time_last c
             (w\<lparr>real_reads := real_reads w + 1\<rparr>) = Some (Inr ((False, t', c'), w1))"
  shows "try_run_loop time_last (length bs) bs c w
         = Some (Inr ((bs, c'\<lparr>first_benchmark_to_run := length bs\<rparr>), w1))"
  using assms by (subst try_run_loop.simps) (simp add: getRealTime_value)

lemma try_run_loop_returned:
  assumes "check_clock_speed (length bs) idx (real_timer w (real_reads w)) time_last c
             (w\<lparr>real_reads := real_reads w + 1\<rparr>) = Some (Inr ((True, t', c'), w1))"
  shows "try_run_loop time_last idx bs c w = Some (Inr ((bs, c'), w1))"
  using assms by (subst try_run_loop.simps) (simp add: getRealTime_value)



lemma run_all_finished:
  "\<not> first_benchmark_to_run c < length bs \<Longrightarrow> run_all bs c w = Some (Inr ((bs, c), w))"
  by (subst run_all.simps) simp

lemma initial_clock_speed_step:
  "i < 4 \<Longrightarrow> measure_clock_speed w = Some (Inr (s, w')) \<Longrightarrow>
   initial_clock_speed i mx w = initial_clock_speed (i + 1) (max mx s) w'"
  by (subst initial_clock_speed.simps) simp

lemma compact_16: "compact_size_triple 16 16 16 = 0x444"
  by code_simp

lemma decode_444: "size_triple_of_compact 0x444 = \<lparr>k = 16, m = 16, n = 16\<rparr>"
  by (simp add: size_triple_of_compact_def)

lemma small_Suc: "Suc (Suc 0) = 2" "Suc 2 = 3" "Suc 3 = 4" "Suc 4 = 5"
  by simp_all


subsection \<open>Which benchmarks a call runs\<close>











subsection \<open>Every benchmark is run before the loop ends\<close>




lemma runs_trials_order:
  assumes "runs_trials bs w bs' w' i e \<rho>" "i \<le> j" "j + 1 < e"
  shows "\<rho> j < \<rho> (j + 1)"
proof -
  note d = assms(1) [unfolded runs_trials_def]
  from d assms(3) have "j < length bs" by simp
  from d [THEN conjunct2, THEN conjunct2, THEN conjunct2, rule_format, OF this] assms(2,3)
  show ?thesis by simp
qed






subsection \<open>Values for the examples\<close>

lemma at_2_float: "binary32 (2) = 2"
  by (subst binary32_eval [where e = "1" and j = 8388608])
     (simp_all add: round_half_even_def)

lemma at_2_threshold: "binary32 (1 / 10) \<le> 2"
  by (simp only: literal_0_1f) simp

lemma at_2_threshold_default: "g_min_accurate_time \<le> 2"
  by (simp only: g_min_accurate_time_value) simp

lemma at_2_tpi: "binary32 (2 / binary32 1) = 2"
  by (simp only: binary32_numerals div_by_1 at_2_float)

lemma at_2_nonzero: "(2 :: real) \<noteq> 0"
  by simp

lemma gflops_128_at_2_quotient: "binary64 (4835703278458517 / 2 ^ 60 / (2)) = 4835703278458517 / 2 ^ 61"
  by (subst binary64_eval [where e = "- 9" and j = 4835703278458517])
     (simp_all add: round_half_even_def)

lemma gflops_128_at_2_float: "binary32 (4835703278458517 / 2 ^ 61) = 9007199 / 2 ^ 32"
  by (subst binary32_eval [where e = "- 9" and j = 9007199])
     (simp_all add: round_half_even_def)

lemma gflops_128_at_2: "gflops_value \<lparr>k = 128, m = 128, n = 128\<rparr> (2) = 9007199 / 2 ^ 32"
  by (simp only: gflops_value_def size_triple_t.simps real_unat_128 literal_2e_9
      double_128_1 double_128_2 double_128_3 gflops_128_at_2_quotient gflops_128_at_2_float)

lemma at_2_finite: "finite32 (9007199 / 2 ^ 32)"
  by (simp add: finite32_def FLT_MAX_def)

lemma estimate_at_2_sum2: "binary32 (9007199 / 2 ^ 32 + 9007199 / 2 ^ 32) = 9007199 / 2 ^ 31"
  by (subst binary32_eval [where e = "- 8" and j = 9007199])
     (simp_all add: round_half_even_def)

lemma estimate_at_2_sum3: "binary32 (9007199 / 2 ^ 31 + 9007199 / 2 ^ 32) = 6755399 / 2 ^ 30"
  by (subst binary32_eval [where e = "- 8" and j = 13510798])
     (simp_all add: round_half_even_def)

lemma estimate_at_2_sum4: "binary32 (6755399 / 2 ^ 30 + 9007199 / 2 ^ 32) = 9007199 / 2 ^ 30"
  by (subst binary32_eval [where e = "- 7" and j = 9007199])
     (simp_all add: round_half_even_def)

lemma estimate_at_2_product: "binary32 (9007199 / 2 ^ 30 * (16181625 / 2 ^ 17)) = 2171861 / 2 ^ 21"
  by (subst binary32_eval [where e = "0" and j = 8687444])
     (simp_all add: round_half_even_def)

lemma estimate_at_2: "clock_speed_estimate (replicate 8 (9007199 / 2 ^ 32)) = Some (2171861 / 2 ^ 21)"
  by (simp only: clock_speed_estimate_replicate Let_def literal_123_456f
      estimate_at_2_sum2 estimate_at_2_sum3 estimate_at_2_sum4 estimate_at_2_product)
     (simp add: finite32_def FLT_MAX_def)

lemma probe_at_2:
  assumes "\<forall>i<8. cpu_timer w (runs w + i) 1 = 2"
  shows "measure_clock_speed w = Some (Inr (2171861 / 2 ^ 21, w\<lparr>runs := runs w + 8\<rparr>))"
  by (rule measure_clock_speed_uniform [OF assms at_2_threshold at_2_tpi at_2_nonzero
        gflops_128_at_2 at_2_finite estimate_at_2])

lemma run_gflops_at_2:
  assumes "cpu_timer w (runs w) 1 = 2"
  shows "run_gflops (probe_benchmark w) w = Some (9007199 / 2 ^ 32)"
  by (rule probe_run_gflops [OF assms at_2_threshold at_2_tpi at_2_nonzero
        gflops_128_at_2 at_2_finite])

lemma at_3_4_float: "binary32 (3 / 4) = 3 / 4"
  by (subst binary32_eval [where e = "- 1" and j = 12582912])
     (simp_all add: round_half_even_def)

lemma at_3_4_threshold: "binary32 (1 / 10) \<le> 3 / 4"
  by (simp only: literal_0_1f) simp


lemma at_3_4_tpi: "binary32 (3 / 4 / binary32 1) = 3 / 4"
  by (simp only: binary32_numerals div_by_1 at_3_4_float)

lemma at_3_4_nonzero: "(3 / 4 :: real) \<noteq> 0"
  by simp

lemma gflops_128_at_3_4_quotient: "binary64 (4835703278458517 / 2 ^ 60 / (3 / 4)) = 6447604371278023 / 2 ^ 60"
  by (subst binary64_eval [where e = "- 8" and j = 6447604371278023])
     (simp_all add: round_half_even_def)

lemma gflops_128_at_3_4_float: "binary32 (6447604371278023 / 2 ^ 60) = 12009599 / 2 ^ 31"
  by (subst binary32_eval [where e = "- 8" and j = 12009599])
     (simp_all add: round_half_even_def)

lemma gflops_128_at_3_4: "gflops_value \<lparr>k = 128, m = 128, n = 128\<rparr> (3 / 4) = 12009599 / 2 ^ 31"
  by (simp only: gflops_value_def size_triple_t.simps real_unat_128 literal_2e_9
      double_128_1 double_128_2 double_128_3 gflops_128_at_3_4_quotient gflops_128_at_3_4_float)

lemma at_3_4_finite: "finite32 (12009599 / 2 ^ 31)"
  by (simp add: finite32_def FLT_MAX_def)







lemma run_gflops_at_3_4:
  assumes "cpu_timer w (runs w) 1 = 3 / 4"
  shows "run_gflops (probe_benchmark w) w = Some (12009599 / 2 ^ 31)"
  by (rule probe_run_gflops [OF assms at_3_4_threshold at_3_4_tpi at_3_4_nonzero
        gflops_128_at_3_4 at_3_4_finite])

lemma above_3_4_float: "binary32 (6354371 / 8388608) = 6354371 / 8388608"
  by (subst binary32_eval [where e = "- 1" and j = 12708742])
     (simp_all add: round_half_even_def)

lemma above_3_4_threshold: "binary32 (1 / 10) \<le> 6354371 / 8388608"
  by (simp only: literal_0_1f) simp

lemma above_3_4_threshold_default: "g_min_accurate_time \<le> 6354371 / 8388608"
  by (simp only: g_min_accurate_time_value) simp

lemma above_3_4_tpi: "binary32 (6354371 / 8388608 / binary32 1) = 6354371 / 8388608"
  by (simp only: binary32_numerals div_by_1 above_3_4_float)

lemma above_3_4_nonzero: "(6354371 / 8388608 :: real) \<noteq> 0"
  by simp

lemma gflops_128_above_3_4_quotient: "binary64 (4835703278458517 / 2 ^ 60 / (6354371 / 8388608)) = 6383766262200199 / 2 ^ 60"
  by (subst binary64_eval [where e = "- 8" and j = 6383766262200199])
     (simp_all add: round_half_even_def)

lemma gflops_128_above_3_4_float: "binary32 (6383766262200199 / 2 ^ 60) = 11890691 / 2 ^ 31"
  by (subst binary32_eval [where e = "- 8" and j = 11890691])
     (simp_all add: round_half_even_def)

lemma gflops_128_above_3_4: "gflops_value \<lparr>k = 128, m = 128, n = 128\<rparr> (6354371 / 8388608) = 11890691 / 2 ^ 31"
  by (simp only: gflops_value_def size_triple_t.simps real_unat_128 literal_2e_9
      double_128_1 double_128_2 double_128_3 gflops_128_above_3_4_quotient gflops_128_above_3_4_float)

lemma above_3_4_finite: "finite32 (11890691 / 2 ^ 31)"
  by (simp add: finite32_def FLT_MAX_def)

lemma estimate_above_3_4_sum2: "binary32 (11890691 / 2 ^ 31 + 11890691 / 2 ^ 31) = 11890691 / 2 ^ 30"
  by (subst binary32_eval [where e = "- 7" and j = 11890691])
     (simp_all add: round_half_even_def)

lemma estimate_above_3_4_sum3: "binary32 (11890691 / 2 ^ 30 + 11890691 / 2 ^ 31) = 4459009 / 2 ^ 28"
  by (subst binary32_eval [where e = "- 6" and j = 8918018])
     (simp_all add: round_half_even_def)

lemma estimate_above_3_4_sum4: "binary32 (4459009 / 2 ^ 28 + 11890691 / 2 ^ 31) = 11890691 / 2 ^ 29"
  by (subst binary32_eval [where e = "- 6" and j = 11890691])
     (simp_all add: round_half_even_def)

lemma estimate_above_3_4_product: "binary32 (11890691 / 2 ^ 29 * (16181625 / 2 ^ 17)) = 2867143 / 2 ^ 20"
  by (subst binary32_eval [where e = "1" and j = 11468572])
     (simp_all add: round_half_even_def)

lemma estimate_above_3_4: "clock_speed_estimate (replicate 8 (11890691 / 2 ^ 31)) = Some (2867143 / 2 ^ 20)"
  by (simp only: clock_speed_estimate_replicate Let_def literal_123_456f
      estimate_above_3_4_sum2 estimate_above_3_4_sum3 estimate_above_3_4_sum4 estimate_above_3_4_product)
     (simp add: finite32_def FLT_MAX_def)


lemma run_gflops_above_3_4:
  assumes "cpu_timer w (runs w) 1 = 6354371 / 8388608"
  shows "run_gflops (probe_benchmark w) w = Some (11890691 / 2 ^ 31)"
  by (rule probe_run_gflops [OF assms above_3_4_threshold above_3_4_tpi above_3_4_nonzero
        gflops_128_above_3_4 above_3_4_finite])

lemma double_16_1: "binary64 (4835703278458517 / 2 ^ 81 * 16) = 4835703278458517 / 2 ^ 77"
  by (subst binary64_eval [where e = "- 25" and j = 4835703278458517])
     (simp_all add: round_half_even_def)

lemma double_16_2: "binary64 (4835703278458517 / 2 ^ 77 * 16) = 4835703278458517 / 2 ^ 73"
  by (subst binary64_eval [where e = "- 21" and j = 4835703278458517])
     (simp_all add: round_half_even_def)

lemma double_16_3: "binary64 (4835703278458517 / 2 ^ 73 * 16) = 4835703278458517 / 2 ^ 69"
  by (subst binary64_eval [where e = "- 17" and j = 4835703278458517])
     (simp_all add: round_half_even_def)

lemma gflops_16_at_1_quotient: "binary64 (4835703278458517 / 2 ^ 69 / (1)) = 4835703278458517 / 2 ^ 69"
  by (subst binary64_eval [where e = "- 17" and j = 4835703278458517])
     (simp_all add: round_half_even_def)

lemma gflops_16_at_1_float: "binary32 (4835703278458517 / 2 ^ 69) = 9007199 / 2 ^ 40"
  by (subst binary32_eval [where e = "- 17" and j = 9007199])
     (simp_all add: round_half_even_def)

lemma gflops_16_at_1: "gflops_value \<lparr>k = 16, m = 16, n = 16\<rparr> (1) = 9007199 / 2 ^ 40"
  by (simp only: gflops_value_def size_triple_t.simps real_unat_16 literal_2e_9
      double_16_1 double_16_2 double_16_3 gflops_16_at_1_quotient gflops_16_at_1_float)

lemma at_1_finite_16: "finite32 (9007199 / 2 ^ 40)"
  by (simp add: finite32_def FLT_MAX_def)

lemma gflops_16_at_half_quotient: "binary64 (4835703278458517 / 2 ^ 69 / (1 / 2)) = 4835703278458517 / 2 ^ 68"
  by (subst binary64_eval [where e = "- 16" and j = 4835703278458517])
     (simp_all add: round_half_even_def)

lemma gflops_16_at_half_float: "binary32 (4835703278458517 / 2 ^ 68) = 9007199 / 2 ^ 39"
  by (subst binary32_eval [where e = "- 16" and j = 9007199])
     (simp_all add: round_half_even_def)

lemma gflops_16_at_half: "gflops_value \<lparr>k = 16, m = 16, n = 16\<rparr> (1 / 2) = 9007199 / 2 ^ 39"
  by (simp only: gflops_value_def size_triple_t.simps real_unat_16 literal_2e_9
      double_16_1 double_16_2 double_16_3 gflops_16_at_half_quotient gflops_16_at_half_float)

lemma at_half_finite_16: "finite32 (9007199 / 2 ^ 39)"
  by (simp add: finite32_def FLT_MAX_def)





lemma steady_gflops_128_at_1: "steady_gflops 128 (1) = 9007199 / 2 ^ 31"
  by (simp only: steady_gflops_def at_1_tpi gflops_128_at_1)

lemma steady_estimate_at_1: "steady_estimate (1) = 2171861 / 2 ^ 20"
  by (simp only: steady_estimate_def steady_gflops_128_at_1 estimate_at_1 option.sel)

lemma steady_probe_at_1:
  assumes "\<forall>i<8. cpu_timer w (runs w + i) 1 = 1"
  shows "measure_clock_speed w = Some (Inr (steady_estimate (1), w\<lparr>runs := runs w + 8\<rparr>))"
  unfolding steady_estimate_at_1 using assms by (rule probe_at_1)

lemma steady_gflops_128_at_half: "steady_gflops 128 (1 / 2) = 9007199 / 2 ^ 30"
  by (simp only: steady_gflops_def at_half_tpi gflops_128_at_half)

lemma steady_estimate_at_half: "steady_estimate (1 / 2) = 2171861 / 2 ^ 19"
  by (simp only: steady_estimate_def steady_gflops_128_at_half estimate_at_half option.sel)

lemma steady_probe_at_half:
  assumes "\<forall>i<8. cpu_timer w (runs w + i) 1 = 1 / 2"
  shows "measure_clock_speed w = Some (Inr (steady_estimate (1 / 2), w\<lparr>runs := runs w + 8\<rparr>))"
  unfolding steady_estimate_at_half using assms by (rule probe_at_half)

lemma steady_gflops_128_at_2: "steady_gflops 128 (2) = 9007199 / 2 ^ 32"
  by (simp only: steady_gflops_def at_2_tpi gflops_128_at_2)

lemma steady_estimate_at_2: "steady_estimate (2) = 2171861 / 2 ^ 21"
  by (simp only: steady_estimate_def steady_gflops_128_at_2 estimate_at_2 option.sel)

lemma steady_probe_at_2:
  assumes "\<forall>i<8. cpu_timer w (runs w + i) 1 = 2"
  shows "measure_clock_speed w = Some (Inr (steady_estimate (2), w\<lparr>runs := runs w + 8\<rparr>))"
  unfolding steady_estimate_at_2 using assms by (rule probe_at_2)




lemma steady_gflops_128_above_3_4: "steady_gflops 128 (6354371 / 8388608) = 11890691 / 2 ^ 31"
  by (simp only: steady_gflops_def above_3_4_tpi gflops_128_above_3_4)

lemma steady_estimate_above_3_4: "steady_estimate (6354371 / 8388608) = 2867143 / 2 ^ 20"
  by (simp only: steady_estimate_def steady_gflops_128_above_3_4 estimate_above_3_4 option.sel)


lemma steady_gflops_16_at_1: "steady_gflops 16 (1) = 9007199 / 2 ^ 40"
  by (simp only: steady_gflops_def at_1_tpi gflops_16_at_1)

lemma steady_run_16_at_1:
  assumes "cpu_timer w (runs w) 1 = 1" "compact_product_size b = 0x444"
    and "min_accurate_time b = g_min_accurate_time"
  shows "benchmark_t_run b w
         = Some (Inr (b\<lparr>gflops := steady_gflops 16 (1)\<rparr>, w\<lparr>runs := runs w + 1\<rparr>))"
proof -
  have m: "min_accurate_time b \<le> 1"
    unfolding assms(3) by (rule at_1_threshold_default)
  have ps: "size_triple_of_compact (compact_product_size b) = \<lparr>k = 16, m = 16, n = 16\<rparr>"
    unfolding assms(2) by (rule decode_444)
  show ?thesis
    unfolding steady_gflops_16_at_1
    by (rule benchmark_t_run_first_batch [OF assms(1) m at_1_tpi at_1_nonzero ps
          gflops_16_at_1 at_1_finite_16])
qed

lemma steady_gflops_16_at_half: "steady_gflops 16 (1 / 2) = 9007199 / 2 ^ 39"
  by (simp only: steady_gflops_def at_half_tpi gflops_16_at_half)

lemma steady_run_16_at_half:
  assumes "cpu_timer w (runs w) 1 = 1 / 2" "compact_product_size b = 0x444"
    and "min_accurate_time b = g_min_accurate_time"
  shows "benchmark_t_run b w
         = Some (Inr (b\<lparr>gflops := steady_gflops 16 (1 / 2)\<rparr>, w\<lparr>runs := runs w + 1\<rparr>))"
proof -
  have m: "min_accurate_time b \<le> 1 / 2"
    unfolding assms(3) by (rule at_half_threshold_default)
  have ps: "size_triple_of_compact (compact_product_size b) = \<lparr>k = 16, m = 16, n = 16\<rparr>"
    unfolding assms(2) by (rule decode_444)
  show ?thesis
    unfolding steady_gflops_16_at_half
    by (rule benchmark_t_run_first_batch [OF assms(1) m at_half_tpi at_half_nonzero ps
          gflops_16_at_half at_half_finite_16])
qed



lemma tolerance_higher_clock_speed_value: "tolerance_higher_clock_speed = 4236247 / 2 ^ 22"
  unfolding tolerance_higher_clock_speed_def
  by (subst binary32_eval [where e = 0 and j = 8472494])
     (simp_all add: round_half_even_def)

lemma higher_product_at_1: "binary32 (4236247 / 2 ^ 22 * (2171861 / 2 ^ 20)) = 4387159 / 2 ^ 21"
  by (subst binary32_eval [where e = "1" and j = 8774318])
     (simp_all add: round_half_even_def)

lemma lower_product_at_1: "binary32 (2055209 / 2 ^ 21 * (2171861 / 2 ^ 20)) = 8513695 / 2 ^ 22"
  by (subst binary32_eval [where e = "1" and j = 8513695])
     (simp_all add: round_half_even_def)





lemma within_at_1:
  "\<not> steady_estimate (1) > binary32 (tolerance_higher_clock_speed * steady_estimate (1))"
  "\<not> steady_estimate (1) < binary32 (tolerance_lower_clock_speed * steady_estimate (1))"
  by (simp_all only: steady_estimate_at_1
      tolerance_higher_clock_speed_value tolerance_lower_clock_speed_value
      higher_product_at_1 lower_product_at_1)
     simp_all


lemma half_against_1:
  "steady_estimate (1 / 2) > binary32 (tolerance_higher_clock_speed * steady_estimate (1))"
  "\<not> steady_estimate (1 / 2) < binary32 (tolerance_lower_clock_speed * steady_estimate (1))"
  "steady_estimate (1 / 2) > 101 / 100 * steady_estimate (1)"
  by (simp_all only: steady_estimate_at_half steady_estimate_at_1
      tolerance_higher_clock_speed_value tolerance_lower_clock_speed_value
      higher_product_at_1 lower_product_at_1)
     simp_all

lemma two_against_1:
  "\<not> steady_estimate (2) > binary32 (tolerance_higher_clock_speed * steady_estimate (1))"
  "steady_estimate (2) < binary32 (tolerance_lower_clock_speed * steady_estimate (1))"
  by (simp_all only: steady_estimate_at_2 steady_estimate_at_1
      tolerance_higher_clock_speed_value tolerance_lower_clock_speed_value
      higher_product_at_1 lower_product_at_1)
     simp_all


lemma steady_estimate_nonneg:
  "0 \<le> steady_estimate 1" "0 \<le> steady_estimate (6354371 / 8388608)"
  by (simp_all only: steady_estimate_at_1 steady_estimate_above_3_4) simp_all


subsection \<open>One round of the loop\<close>

lemma try_run_loop_within:
  assumes "idx = length bs \<or> binary64 (time_last + 60) < real_timer w (real_reads w)"
    and "measure_clock_speed (w\<lparr>real_reads := real_reads w + 1\<rparr>) = Some (Inr (current, w1))"
    and "\<not> current > binary32 (tolerance_higher_clock_speed * max_clock_speed c)"
    and "\<not> current < binary32 (tolerance_lower_clock_speed * max_clock_speed c)"
    and "idx < length bs"
    and "benchmark_t_run (bs ! idx) w1 = Some (Inr (b', w2))"
  shows "try_run_loop time_last idx bs c w
         = try_run_loop (real_timer w (real_reads w)) (idx + 1) (bs[idx := b'])
             (c\<lparr>first_benchmark_to_run := idx\<rparr>) w2"
  by (rule try_run_loop_run [OF check_clock_speed_within [OF assms(1-4)] assms(5,6)])

lemma try_run_loop_end:
  assumes "measure_clock_speed (w\<lparr>real_reads := real_reads w + 1\<rparr>) = Some (Inr (current, w1))"
    and "\<not> current > binary32 (tolerance_higher_clock_speed * max_clock_speed c)"
    and "\<not> current < binary32 (tolerance_lower_clock_speed * max_clock_speed c)"
  shows "try_run_loop time_last (length bs) bs c w
         = Some (Inr ((bs, c\<lparr>first_benchmark_to_run := length bs\<rparr>), w1))"
proof -
  have "check_clock_speed (length bs) (length bs) (real_timer w (real_reads w)) time_last c
          (w\<lparr>real_reads := real_reads w + 1\<rparr>)
        = Some (Inr ((False, real_timer w (real_reads w),
                      c\<lparr>first_benchmark_to_run := length bs\<rparr>), w1))"
    using assms by (intro check_clock_speed_within) simp_all
  from try_run_loop_done [OF this] show ?thesis by simp
qed


lemma sleep_loop_once:
  assumes "cur < binary32 (tolerance_lower_clock_speed * mx)"
    and "measure_clock_speed (w\<lparr>sleeps := sleeps w @ [1]\<rparr>) = Some (Inr (cur', w'))"
    and "\<not> cur' < binary32 (tolerance_lower_clock_speed * mx)"
  shows "sleep_loop mx cur 1 False w = Some (Inr ((cur', True), w'))"
proof -
  have "sleep_loop mx cur 1 False w = sleep_loop mx cur' ((1 * 2) mod 2 ^ 32) True w'"
    using sleep_loop_sleep [OF assms(1), of 1 False w] assms(2) by simp
  also have "\<dots> = Some (Inr ((cur', True), w'))"
    using assms(3) by (rule sleep_loop_done)
  finally show ?thesis .
qed

lemma try_run_loop_redo:
  assumes "idx = length bs \<or> binary64 (time_last + 60) < real_timer w (real_reads w)"
    and "measure_clock_speed (w\<lparr>real_reads := real_reads w + 1\<rparr>) = Some (Inr (current, w1))"
    and "\<not> current > binary32 (tolerance_higher_clock_speed * max_clock_speed c)"
    and "current < binary32 (tolerance_lower_clock_speed * max_clock_speed c)"
    and "sleep_loop (max_clock_speed c) current 1 False w1 = Some (Inr ((current', True), w2))"
  shows "try_run_loop time_last idx bs c w = Some (Inr ((bs, c), w2))"
proof -
  have "check_clock_speed (length bs) idx (real_timer w (real_reads w)) time_last c
          (w\<lparr>real_reads := real_reads w + 1\<rparr>)
        = Some (Inr ((True, real_timer w (real_reads w), c), w2))"
    using assms by (simp add: check_clock_speed_def)
  then show ?thesis by (rule try_run_loop_returned)
qed

lemma b16_simps:
  "compact_product_size (benchmark_t_3 0 16 16 16) = 0x444"
  "min_accurate_time (benchmark_t_3 0 16 16 16) = g_min_accurate_time"
  "gflops (benchmark_t_3 0 16 16 16) = 0"
  by (simp_all add: benchmark_t_3_def compact_16)

subsection \<open>A run in which the clock speed rises\<close>









lemma initial_clock_speed_steady:
  assumes "\<And>a. a + 8 \<le> 32 \<Longrightarrow>
             measure_clock_speed (w\<lparr>runs := a\<rparr>) = Some (Inr (s, w\<lparr>runs := a + 8\<rparr>))"
    and "0 \<le> s"
  shows "initial_clock_speed 0 0 (w\<lparr>runs := 0\<rparr>) = Some (Inr (s, w\<lparr>runs := 32\<rparr>))"
proof -
  have p: "measure_clock_speed (w\<lparr>runs := a\<rparr>) = Some (Inr (s, w\<lparr>runs := a + 8\<rparr>))"
    if "a + 8 \<le> 32" for a
    using that by (rule assms(1))
  have "initial_clock_speed 0 0 (w\<lparr>runs := 0\<rparr>)
        = initial_clock_speed (0 + 1) (max 0 s) (w\<lparr>runs := 0 + 8\<rparr>)"
    by (rule initial_clock_speed_step [OF _ p]) simp_all
  also have "\<dots> = initial_clock_speed 1 s (w\<lparr>runs := 8\<rparr>)" using assms(2) by simp
  also have "\<dots> = initial_clock_speed (1 + 1) (max s s) (w\<lparr>runs := 8 + 8\<rparr>)"
    by (rule initial_clock_speed_step [OF _ p]) simp_all
  also have "\<dots> = initial_clock_speed 2 s (w\<lparr>runs := 16\<rparr>)" by (simp add: small_Suc)
  also have "\<dots> = initial_clock_speed (2 + 1) (max s s) (w\<lparr>runs := 16 + 8\<rparr>)"
    by (rule initial_clock_speed_step [OF _ p]) simp_all
  also have "\<dots> = initial_clock_speed 3 s (w\<lparr>runs := 24\<rparr>)" by (simp add: small_Suc)
  also have "\<dots> = initial_clock_speed (3 + 1) (max s s) (w\<lparr>runs := 24 + 8\<rparr>)"
    by (rule initial_clock_speed_step [OF _ p]) simp_all
  also have "\<dots> = initial_clock_speed 4 s (w\<lparr>runs := 32\<rparr>)" by (simp add: small_Suc)
  also have "\<dots> = Some (Inr (s, w\<lparr>runs := 32\<rparr>))"
    by (subst initial_clock_speed.simps) simp
  finally show ?thesis .
qed



subsection \<open>A run in which the clock speed rises by one percent\<close>







subsection \<open>A run in which the clock speed falls and comes back\<close>

lemma redo_world_simps:
  "cpu_timer redo_world = (\<lambda>r i. if 50 \<le> r \<and> r < 58 then 2
                     else if (58 \<le> r \<and> r < 66) \<or> r = 74 then 1 / 2 else 1)"
  "real_timer redo_world = (\<lambda>j. 100 * real j)"
  "runs redo_world = 0" "real_reads redo_world = 0" "sleeps redo_world = []"
  by (simp_all add: redo_world_def world_of_def)

lemma redo_probe_normal:
  assumes "cpu_timer w = cpu_timer redo_world"
    and "runs w + 8 \<le> 50 \<or> (66 \<le> runs w \<and> runs w + 8 \<le> 74) \<or> 75 \<le> runs w"
  shows "measure_clock_speed w = Some (Inr (steady_estimate 1, w\<lparr>runs := runs w + 8\<rparr>))"
proof -
  have "\<forall>i<8. cpu_timer w (runs w + i) 1 = 1"
    using assms(2) unfolding assms(1) by (auto simp: redo_world_simps)
  then show ?thesis by (rule steady_probe_at_1)
qed

lemma redo_probe_slow:
  assumes "cpu_timer w = cpu_timer redo_world" "runs w = 50"
  shows "measure_clock_speed w = Some (Inr (steady_estimate 2, w\<lparr>runs := runs w + 8\<rparr>))"
proof -
  have "\<forall>i<8. cpu_timer w (runs w + i) 1 = 2"
    unfolding assms by (auto simp: redo_world_simps)
  then show ?thesis by (rule steady_probe_at_2)
qed

lemma redo_probe_fast:
  assumes "cpu_timer w = cpu_timer redo_world" "runs w = 58"
  shows "measure_clock_speed w = Some (Inr (steady_estimate (1 / 2), w\<lparr>runs := runs w + 8\<rparr>))"
proof -
  have "\<forall>i<8. cpu_timer w (runs w + i) 1 = 1 / 2"
    unfolding assms by (auto simp: redo_world_simps)
  then show ?thesis by (rule steady_probe_at_half)
qed

lemma redo_run_normal:
  assumes "cpu_timer w = cpu_timer redo_world" "runs w < 50 \<or> (66 \<le> runs w \<and> runs w \<noteq> 74)"
    and "compact_product_size bb = 0x444" "min_accurate_time bb = g_min_accurate_time"
  shows "benchmark_t_run bb w
         = Some (Inr (bb\<lparr>gflops := steady_gflops 16 1\<rparr>, w\<lparr>runs := runs w + 1\<rparr>))"
proof -
  have "cpu_timer w (runs w) 1 = 1"
    using assms(2) unfolding assms(1) by (auto simp: redo_world_simps)
  then show ?thesis using assms(3,4) by (rule steady_run_16_at_1)
qed

lemma redo_run_fast:
  assumes "cpu_timer w = cpu_timer redo_world" "runs w = 74"
    and "compact_product_size bb = 0x444" "min_accurate_time bb = g_min_accurate_time"
  shows "benchmark_t_run bb w
         = Some (Inr (bb\<lparr>gflops := steady_gflops 16 (1 / 2)\<rparr>, w\<lparr>runs := runs w + 1\<rparr>))"
proof -
  have "cpu_timer w (runs w) 1 = 1 / 2"
    unfolding assms(1,2) by (simp add: redo_world_simps)
  then show ?thesis using assms(3,4) by (rule steady_run_16_at_half)
qed

lemma redo_first_call:
  "try_run_some_benchmarks [benchmark_t_3 0 16 16 16, benchmark_t_3 0 16 16 16]
     \<lparr>first_benchmark_to_run = 0, max_clock_speed = steady_estimate 1\<rparr>
     (redo_world\<lparr>runs := 32, real_reads := 1\<rparr>)
   = Some (Inr (([(benchmark_t_3 0 16 16 16)\<lparr>gflops := steady_gflops 16 1\<rparr>,
                  (benchmark_t_3 0 16 16 16)\<lparr>gflops := steady_gflops 16 1\<rparr>],
                 \<lparr>first_benchmark_to_run = 1, max_clock_speed = steady_estimate 1\<rparr>),
                redo_world\<lparr>runs := 66, real_reads := 4, sleeps := [1]\<rparr>))"
proof -
  let ?b = "benchmark_t_3 0 16 16 16"
  let ?b1 = "?b\<lparr>gflops := steady_gflops 16 1\<rparr>"
  let ?ca = "\<lparr>first_benchmark_to_run = 0, max_clock_speed = steady_estimate 1\<rparr>"
  let ?w0 = "redo_world\<lparr>runs := 32, real_reads := 1\<rparr>"
  let ?r0 = "?w0\<lparr>real_reads := real_reads ?w0 + 1\<rparr>"
  let ?p0 = "?r0\<lparr>runs := runs ?r0 + 8\<rparr>"
  let ?x0 = "?p0\<lparr>runs := runs ?p0 + 1\<rparr>"
  let ?r1 = "?x0\<lparr>real_reads := real_reads ?x0 + 1\<rparr>"
  let ?p1 = "?r1\<lparr>runs := runs ?r1 + 8\<rparr>"
  let ?x1 = "?p1\<lparr>runs := runs ?p1 + 1\<rparr>"
  let ?r2 = "?x1\<lparr>real_reads := real_reads ?x1 + 1\<rparr>"
  let ?p2 = "?r2\<lparr>runs := runs ?r2 + 8\<rparr>"
  let ?s2 = "?p2\<lparr>sleeps := sleeps ?p2 @ [1]\<rparr>"
  let ?q2 = "?s2\<lparr>runs := runs ?s2 + 8\<rparr>"
  have step1: "try_run_loop 0 0 [?b, ?b] ?ca ?w0
               = try_run_loop (real_timer ?w0 (real_reads ?w0)) (0 + 1) ([?b, ?b][0 := ?b1])
                   (?ca\<lparr>first_benchmark_to_run := 0\<rparr>) ?x0"
  proof (rule try_run_loop_within [where current = "steady_estimate 1" and ?w1.0 = ?p0])
    show "measure_clock_speed ?r0 = Some (Inr (steady_estimate 1, ?p0))"
      by (rule redo_probe_normal) (simp_all add: redo_world_simps)
    show "benchmark_t_run ([?b, ?b] ! 0) ?p0 = Some (Inr (?b1, ?x0))"
      using redo_run_normal [of ?p0 ?b] by (simp add: redo_world_simps b16_simps)
  qed (simp_all add: redo_world_simps within_at_1)
  let ?cb = "?ca\<lparr>first_benchmark_to_run := 0\<rparr>"
  have step2: "try_run_loop (real_timer ?w0 (real_reads ?w0)) (0 + 1) ([?b, ?b][0 := ?b1]) ?cb ?x0
               = try_run_loop (real_timer ?x0 (real_reads ?x0)) (0 + 1 + 1)
                   (([?b, ?b][0 := ?b1])[0 + 1 := ?b1])
                   (?cb\<lparr>first_benchmark_to_run := 0 + 1\<rparr>) ?x1"
  proof (rule try_run_loop_within [where current = "steady_estimate 1" and ?w1.0 = ?p1])
    show "measure_clock_speed ?r1 = Some (Inr (steady_estimate 1, ?p1))"
      by (rule redo_probe_normal) (simp_all add: redo_world_simps)
    show "benchmark_t_run (([?b, ?b][0 := ?b1]) ! (0 + 1)) ?p1 = Some (Inr (?b1, ?x1))"
      using redo_run_normal [of ?p1 ?b] by (simp add: redo_world_simps b16_simps)
  qed (simp_all add: redo_world_simps within_at_1)
  let ?cc = "?cb\<lparr>first_benchmark_to_run := 0 + 1\<rparr>"
  have sl: "sleep_loop (max_clock_speed ?cc) (steady_estimate 2) 1 False ?p2
            = Some (Inr ((steady_estimate (1 / 2), True), ?q2))"
  proof (rule sleep_loop_once)
    show "measure_clock_speed ?s2 = Some (Inr (steady_estimate (1 / 2), ?q2))"
      by (rule redo_probe_fast) (simp_all add: redo_world_simps)
  qed (simp_all add: two_against_1 half_against_1)
  have step3: "try_run_loop (real_timer ?x0 (real_reads ?x0)) (0 + 1 + 1)
                   (([?b, ?b][0 := ?b1])[0 + 1 := ?b1]) ?cc ?x1
               = Some (Inr (((([?b, ?b][0 := ?b1])[0 + 1 := ?b1]), ?cc), ?q2))"
  proof (rule try_run_loop_redo [where current = "steady_estimate 2" and ?w1.0 = ?p2
        and current' = "steady_estimate (1 / 2)"])
    show "measure_clock_speed ?r2 = Some (Inr (steady_estimate 2, ?p2))"
      by (rule redo_probe_slow) (simp_all add: redo_world_simps)
    show "sleep_loop (max_clock_speed ?cc) (steady_estimate 2) 1 False ?p2
            = Some (Inr ((steady_estimate (1 / 2), True), ?q2))"
      by (rule sl)
  qed (simp_all add: two_against_1)
  have "try_run_loop 0 0 [?b, ?b] ?ca ?w0
        = Some (Inr (((([?b, ?b][0 := ?b1])[0 + 1 := ?b1]), ?cc), ?q2))"
    by (simp only: step1 step2 step3)
  then show ?thesis
    by (simp add: try_run_some_benchmarks_def redo_world_simps)
qed

lemma redo_second_call:
  "try_run_some_benchmarks [(benchmark_t_3 0 16 16 16)\<lparr>gflops := steady_gflops 16 1\<rparr>,
                            (benchmark_t_3 0 16 16 16)\<lparr>gflops := steady_gflops 16 1\<rparr>]
     \<lparr>first_benchmark_to_run = 1, max_clock_speed = steady_estimate 1\<rparr>
     (redo_world\<lparr>runs := 66, real_reads := 4, sleeps := [1]\<rparr>)
   = Some (Inr (([(benchmark_t_3 0 16 16 16)\<lparr>gflops := steady_gflops 16 1\<rparr>,
                  (benchmark_t_3 0 16 16 16)\<lparr>gflops := steady_gflops 16 (1 / 2)\<rparr>],
                 \<lparr>first_benchmark_to_run = 2, max_clock_speed = steady_estimate 1\<rparr>),
                redo_world\<lparr>runs := 83, real_reads := 6, sleeps := [1]\<rparr>))"
proof -
  let ?b = "benchmark_t_3 0 16 16 16"
  let ?b1 = "?b\<lparr>gflops := steady_gflops 16 1\<rparr>"
  let ?b2 = "?b\<lparr>gflops := steady_gflops 16 (1 / 2)\<rparr>"
  let ?c1 = "\<lparr>first_benchmark_to_run = 1, max_clock_speed = steady_estimate 1\<rparr>"
  let ?w0 = "redo_world\<lparr>runs := 66, real_reads := 4, sleeps := [1]\<rparr>"
  let ?r0 = "?w0\<lparr>real_reads := real_reads ?w0 + 1\<rparr>"
  let ?p0 = "?r0\<lparr>runs := runs ?r0 + 8\<rparr>"
  let ?x0 = "?p0\<lparr>runs := runs ?p0 + 1\<rparr>"
  let ?r1 = "?x0\<lparr>real_reads := real_reads ?x0 + 1\<rparr>"
  let ?p1 = "?r1\<lparr>runs := runs ?r1 + 8\<rparr>"
  have step1: "try_run_loop 0 1 [?b1, ?b1] ?c1 ?w0
               = try_run_loop (real_timer ?w0 (real_reads ?w0)) (1 + 1) ([?b1, ?b1][1 := ?b2])
                   (?c1\<lparr>first_benchmark_to_run := 1\<rparr>) ?x0"
  proof (rule try_run_loop_within [where current = "steady_estimate 1" and ?w1.0 = ?p0])
    show "measure_clock_speed ?r0 = Some (Inr (steady_estimate 1, ?p0))"
      by (rule redo_probe_normal) (simp_all add: redo_world_simps)
    show "benchmark_t_run ([?b1, ?b1] ! 1) ?p0 = Some (Inr (?b2, ?x0))"
      using redo_run_fast [of ?p0 ?b1] by (simp add: redo_world_simps b16_simps)
  qed (simp_all add: redo_world_simps within_at_1)
  let ?c = "?c1\<lparr>first_benchmark_to_run := 1\<rparr>"
  have "try_run_loop (real_timer ?w0 (real_reads ?w0)) (length ([?b1, ?b1][1 := ?b2]))
                   ([?b1, ?b1][1 := ?b2]) ?c ?x0
               = Some (Inr (([?b1, ?b1][1 := ?b2],
                     ?c\<lparr>first_benchmark_to_run := length ([?b1, ?b1][1 := ?b2])\<rparr>), ?p1))"
  proof (rule try_run_loop_end [where current = "steady_estimate 1"])
    show "measure_clock_speed ?r1 = Some (Inr (steady_estimate 1, ?p1))"
      by (rule redo_probe_normal) (simp_all add: redo_world_simps)
  qed (simp_all add: within_at_1)
  then have step2: "try_run_loop (real_timer ?w0 (real_reads ?w0)) (1 + 1)
                   ([?b1, ?b1][1 := ?b2]) ?c ?x0
               = Some (Inr (([?b1, ?b1][1 := ?b2],
                     ?c\<lparr>first_benchmark_to_run := length ([?b1, ?b1][1 := ?b2])\<rparr>), ?p1))"
    by simp
  have "try_run_loop 0 1 [?b1, ?b1] ?c1 ?w0
        = Some (Inr (([?b1, ?b1][1 := ?b2],
                     ?c\<lparr>first_benchmark_to_run := length ([?b1, ?b1][1 := ?b2])\<rparr>), ?p1))"
    by (simp only: step1 step2)
  then show ?thesis
    by (simp add: try_run_some_benchmarks_def redo_world_simps)
qed

lemma redo_run_all:
  "run_all [benchmark_t_3 0 16 16 16, benchmark_t_3 0 16 16 16]
     \<lparr>first_benchmark_to_run = 0, max_clock_speed = steady_estimate 1\<rparr>
     (redo_world\<lparr>runs := 32, real_reads := 1\<rparr>)
   = Some (Inr (([(benchmark_t_3 0 16 16 16)\<lparr>gflops := steady_gflops 16 1\<rparr>,
                  (benchmark_t_3 0 16 16 16)\<lparr>gflops := steady_gflops 16 (1 / 2)\<rparr>],
                 \<lparr>first_benchmark_to_run = 2, max_clock_speed = steady_estimate 1\<rparr>),
                redo_world\<lparr>runs := 83, real_reads := 6, sleeps := [1]\<rparr>))"
proof -
  let ?b = "benchmark_t_3 0 16 16 16"
  let ?b1 = "?b\<lparr>gflops := steady_gflops 16 1\<rparr>"
  let ?b2 = "?b\<lparr>gflops := steady_gflops 16 (1 / 2)\<rparr>"
  have "run_all [?b, ?b] \<lparr>first_benchmark_to_run = 0, max_clock_speed = steady_estimate 1\<rparr>
          (redo_world\<lparr>runs := 32, real_reads := 1\<rparr>)
        = run_all [?b1, ?b1] \<lparr>first_benchmark_to_run = 1, max_clock_speed = steady_estimate 1\<rparr>
            (redo_world\<lparr>runs := 66, real_reads := 4, sleeps := [1]\<rparr>)"
    by (subst run_all_continue) (simp_all only: redo_first_call, simp_all)
  also have "\<dots> = run_all [?b1, ?b2]
                     \<lparr>first_benchmark_to_run = 2, max_clock_speed = steady_estimate 1\<rparr>
                     (redo_world\<lparr>runs := 83, real_reads := 6, sleeps := [1]\<rparr>)"
    by (subst run_all_continue) (simp_all only: redo_second_call, simp_all)
  also have "\<dots> = Some (Inr (([?b1, ?b2],
                     \<lparr>first_benchmark_to_run = 2, max_clock_speed = steady_estimate 1\<rparr>),
                     redo_world\<lparr>runs := 83, real_reads := 6, sleeps := [1]\<rparr>))"
    by (rule run_all_finished) simp
  finally show ?thesis .
qed




lemma redo_initial_clock_speed:
  "initial_clock_speed 0 0 redo_world
   = Some (Inr (steady_estimate 1, redo_world\<lparr>runs := 32\<rparr>))"
proof -
  have p: "measure_clock_speed (redo_world\<lparr>runs := a\<rparr>)
           = Some (Inr (steady_estimate 1, redo_world\<lparr>runs := a + 8\<rparr>))" if "a + 8 \<le> 32" for a
    using redo_probe_normal [of "redo_world\<lparr>runs := a\<rparr>"] that by simp
  have W0: "redo_world\<lparr>runs := 0\<rparr> = redo_world"
    by (simp add: redo_world_def world_of_def)
  from initial_clock_speed_steady [of redo_world "steady_estimate 1", OF p steady_estimate_nonneg(1)]
  show ?thesis unfolding W0 .
qed

lemma redo_run_benchmarks:
  "run_benchmarks [benchmark_t_3 0 16 16 16, benchmark_t_3 0 16 16 16] redo_world
   = Some (Inr (reduce_benchmarks
                  [(benchmark_t_3 0 16 16 16)\<lparr>gflops := steady_gflops 16 1\<rparr>,
                   (benchmark_t_3 0 16 16 16)\<lparr>gflops := steady_gflops 16 (1 / 2)\<rparr>],
                redo_world\<lparr>runs := 83, real_reads := 6, sleeps := [1]\<rparr>))"
proof -
  have sh: "random_shuffle redo_world [benchmark_t_3 0 16 16 16, benchmark_t_3 0 16 16 16]
            = [benchmark_t_3 0 16 16 16, benchmark_t_3 0 16 16 16]"
    by (simp add: redo_world_def world_of_def)
  have g: "getRealTime (redo_world\<lparr>runs := 32\<rparr>)
           = (0, redo_world\<lparr>runs := 32, real_reads := 1\<rparr>)"
    by (simp add: getRealTime_def redo_world_simps)
  show ?thesis
    unfolding run_benchmarks_def Let_def sh redo_initial_clock_speed
    by (simp only: option.case sum.case prod.case g redo_run_all)
qed



subsection \<open>What a call and the rest of the loop do to the benchmarks\<close>
















end
